theory Spec2Isabelle
  imports Main "HOL-Library.AList" "HOL-Library.Char_ord" "HOL-Library.List_Lexorder"
begin

section \<open>Host-language values used by the dashboard\<close>

text \<open>
  A \<^verbatim>\<open>Date\<close> object as \<^verbatim>\<open>loadData\<close> observes it: either its time value is
  \<^verbatim>\<open>NaN\<close> (\<open>InvalidDate\<close>), or \<^verbatim>\<open>getFullYear()\<close> and \<^verbatim>\<open>getMonth()\<close> read the
  local calendar year and the month index of \<open>LocalDate year monthIndex\<close>.
  The constructor \<^verbatim>\<open>new Date(x)\<close> belongs to the host, its parsing of non-ISO text is
  implementation-defined; it is a parameter \<open>newDate\<close> of everything below, applied to the
  cell of the row (\<open>None\<close> is \<^verbatim>\<open>undefined\<close>).
\<close>

datatype jsdate = InvalidDate | LocalDate int nat

type_synonym dateCtor = "string option \<Rightarrow> jsdate"

text \<open>
  The number \<^verbatim>\<open>a.localeCompare(b)\<close> gives: negative, zero or positive.
\<close>

type_synonym collation = "string \<Rightarrow> string \<Rightarrow> int"

text \<open>A parsed CSV row (\<^verbatim>\<open>header: true\<close>): header name to cell text.\<close>

type_synonym row = "string \<rightharpoonup> string"

definition digitChar :: "nat \<Rightarrow> char" where
  "digitChar n = ''0123456789'' ! n"

fun digitsOf :: "nat \<Rightarrow> string" where
  "digitsOf n = (if n < 10 then [digitChar n] else digitsOf (n div 10) @ [digitChar (n mod 10)])"

declare digitsOf.simps [simp del]

text \<open>\<^verbatim>\<open>String(n)\<close> and \<^verbatim>\<open>`${n}`\<close> for an integral number.\<close>

definition numberToString :: "int \<Rightarrow> string" where
  "numberToString i = (if i < 0 then CHR ''-'' # digitsOf (nat (- i)) else digitsOf (nat i))"

text \<open>\<^verbatim>\<open>s.padStart(n, c)\<close> for a one-character pad string.\<close>

definition padStart :: "string \<Rightarrow> nat \<Rightarrow> char \<Rightarrow> string" where
  "padStart s n c = replicate (n - length s) c @ s"

text \<open>
  The order in which \<^verbatim>\<open>Object.values\<close> and \<^verbatim>\<open>Object.entries\<close> walk the own properties of
  an object: the keys that are array indices (canonical decimal text of a number below
  \<open>2^32 - 1\<close>) in ascending numeric order, then every other key in creation order.
  An object's own properties are an association list in creation order.
\<close>

definition isDigit :: "char \<Rightarrow> bool" where
  "isDigit c = (c \<in> set ''0123456789'')"

definition digitVal :: "char \<Rightarrow> nat" where
  "digitVal c = of_char c - 48"

definition natOfDigits :: "string \<Rightarrow> nat" where
  "natOfDigits s = foldl (\<lambda>a c. 10 * a + digitVal c) 0 s"

definition isArrayIndex :: "string \<Rightarrow> bool" where
  "isArrayIndex k =
     (if k \<noteq> [] \<and> list_all isDigit k
      then digitsOf (natOfDigits k) = k \<and> natOfDigits k < 4294967295
      else False)"

definition objectEntries :: "(string \<times> 'v) list \<Rightarrow> (string \<times> 'v) list" where
  "objectEntries obj =
     sort_key (\<lambda>p. natOfDigits (fst p)) (filter (\<lambda>p. isArrayIndex (fst p)) obj)
       @ filter (\<lambda>p. \<not> isArrayIndex (fst p)) obj"

section \<open>Date bucketing\<close>

definition MONTHS :: "string list" where
  "MONTHS = [''Jan'', ''Feb'', ''Mar'', ''Apr'', ''May'', ''Jun'',
             ''Jul'', ''Aug'', ''Sep'', ''Oct'', ''Nov'', ''Dec'']"

text \<open>\<^verbatim>\<open>`${MONTHS[i]}`\<close>: an index outside the array reads \<^verbatim>\<open>undefined\<close>.\<close>

definition monthName :: "nat \<Rightarrow> string" where
  "monthName i = (if i < length MONTHS then MONTHS ! i else ''undefined'')"

text \<open>
  \<^verbatim>\<open>formatDate\<close> and \<^verbatim>\<open>formatAxisDate\<close> are called with the \<^verbatim>\<open>Date\<close> object itself;
  their \<^verbatim>\<open>new Date(dateStr)\<close> copies its time value, so they read the same year and month.
\<close>

definition formatDate :: "jsdate \<Rightarrow> string" where
  "formatDate dateStr =
     (case dateStr of
        InvalidDate \<Rightarrow> ''undefined NaN''
      | LocalDate y m \<Rightarrow> monthName m @ '' '' @ numberToString y)"

definition formatAxisDate :: "jsdate \<Rightarrow> string" where
  "formatAxisDate dateStr =
     (case dateStr of
        InvalidDate \<Rightarrow> ''NaN-NaN''
      | LocalDate y m \<Rightarrow> padStart (numberToString (int m + 1)) 2 CHR ''0'' @ ''-'' @ numberToString y)"

text \<open>The template of line 85: \<^verbatim>\<open>`${getFullYear()}-${String(getMonth() + 1).padStart(2, '0')}`\<close>.\<close>

definition monthKey :: "int \<Rightarrow> nat \<Rightarrow> string" where
  "monthKey y m = numberToString y @ ''-'' @ padStart (numberToString (int m + 1)) 2 CHR ''0''"

section \<open>Monthly aggregation\<close>

record bucket =
  date :: string
  axisDate :: string
  count :: nat
  sortKey :: string

text \<open>
  \<^verbatim>\<open>monthlyAccidents\<close> is an object used as a dictionary. Assigning to an existing key
  keeps its place among the own properties, a new key is appended. Every key holds a
  \<open>-\<close> after the year, so it is neither \<^verbatim>\<open>__proto__\<close> nor the name of a property inherited
  from \<^verbatim>\<open>Object.prototype\<close> (lemma \<open>monthKey_not_inherited\<close> below): the read
  \<^verbatim>\<open>monthlyAccidents[key]?.count\<close> finds an own bucket or \<^verbatim>\<open>undefined\<close>.
  \<^verbatim>\<open>x || 0\<close> on a missing count is \<open>0\<close>, on a number it is that number.
\<close>

definition orZero :: "nat option \<Rightarrow> nat" where
  "orZero c = (case c of None \<Rightarrow> 0 | Some n \<Rightarrow> if n = 0 then 0 else n)"

definition monthlyStep :: "dateCtor \<Rightarrow> (string \<times> bucket) list \<Rightarrow> row \<Rightarrow> (string \<times> bucket) list" where
  "monthlyStep newDate monthlyAccidents r =
     (case newDate (r ''Incident Date'') of
        InvalidDate \<Rightarrow> monthlyAccidents
      | LocalDate y m \<Rightarrow>
          (let key = monthKey y m in
           AList.update key
             \<lparr> date = formatDate (LocalDate y m),
               axisDate = formatAxisDate (LocalDate y m),
               count = orZero (map_option count (map_of monthlyAccidents key)) + 1,
               sortKey = key \<rparr>
             monthlyAccidents))"

definition monthlyAccidents :: "dateCtor \<Rightarrow> row list \<Rightarrow> row list \<Rightarrow> (string \<times> bucket) list" where
  "monthlyAccidents newDate adasData adsData = foldl (monthlyStep newDate) [] (adasData @ adsData)"

text \<open>
  \<^verbatim>\<open>array.sort(compareFn)\<close>. For a comparator that is consistent (total and transitive on
  the elements) the result is the sorted arrangement in which elements that compare equal
  keep their order, whatever algorithm the host runs; that arrangement is computed here by
  a stable insertion. For any other comparator the order is left to the host.
\<close>

fun insertSorted :: "('a \<Rightarrow> 'a \<Rightarrow> int) \<Rightarrow> 'a \<Rightarrow> 'a list \<Rightarrow> 'a list" where
  "insertSorted compareFn x [] = [x]"
| "insertSorted compareFn x (y # ys) =
     (if compareFn x y \<le> 0 then x # y # ys else y # insertSorted compareFn x ys)"

definition arraySort :: "('a \<Rightarrow> 'a \<Rightarrow> int) \<Rightarrow> 'a list \<Rightarrow> 'a list" where
  "arraySort compareFn xs = foldr (insertSorted compareFn) xs []"

text \<open>
  \<^verbatim>\<open>Object.values(monthlyAccidents).sort((a, b) => a.sortKey.localeCompare(b.sortKey))\<close>.
  \<^verbatim>\<open>localeCompare\<close> is called without a locale: it compares under the default collation
  of the host, which depends on the host's locale (some collations ignore punctuation).
  Like the \<^verbatim>\<open>Date\<close> constructor it is a parameter, \<open>localeCompare a b\<close> being the
  number \<^verbatim>\<open>a.localeCompare(b)\<close> returns.
\<close>

definition monthlyDataArray ::
  "dateCtor \<Rightarrow> collation \<Rightarrow> row list \<Rightarrow> row list \<Rightarrow> bucket list" where
  "monthlyDataArray newDate localeCompare adasData adsData =
     arraySort (\<lambda>a b. localeCompare (sortKey a) (sortKey b))
       (map snd (objectEntries (monthlyAccidents newDate adasData adsData)))"

text \<open>
  The instrumented loop: the same steps, counting how often the bucket's labels are
  computed (one call of \<^verbatim>\<open>formatDate\<close> and one of \<^verbatim>\<open>formatAxisDate\<close> each time the
  body of the \<^verbatim>\<open>if\<close> on line 84 runs).
\<close>

definition monthlyStepCounting ::
  "dateCtor \<Rightarrow> (string \<times> bucket) list \<times> nat \<Rightarrow> row \<Rightarrow> (string \<times> bucket) list \<times> nat" where
  "monthlyStepCounting newDate st r =
     (case newDate (r ''Incident Date'') of
        InvalidDate \<Rightarrow> st
      | LocalDate y m \<Rightarrow>
          (let key = monthKey y m in
           (AList.update key
              \<lparr> date = formatDate (LocalDate y m),
                axisDate = formatAxisDate (LocalDate y m),
                count = orZero (map_option count (map_of (fst st) key)) + 1,
                sortKey = key \<rparr>
              (fst st),
            snd st + 1)))"

definition labelComputations :: "dateCtor \<Rightarrow> row list \<Rightarrow> row list \<Rightarrow> nat" where
  "labelComputations newDate adasData adsData =
     snd (foldl (monthlyStepCounting newDate) ([], 0) (adasData @ adsData))"

section \<open>Category aggregation\<close>

text \<open>
  The values the reducer's accumulator can hold or inherit: numbers, strings, the native
  functions of \<^verbatim>\<open>Object.prototype\<close> (by name) and \<^verbatim>\<open>Object.prototype\<close> itself.
\<close>

datatype jsval = Num int | Str string | Fn string | ObjectPrototype

text \<open>
  The accumulator starts as \<^verbatim>\<open>{}\<close>, whose prototype is \<^verbatim>\<open>Object.prototype\<close>: a read of a
  key that is not an own property finds the inherited one. \<^verbatim>\<open>__proto__\<close> is the accessor
  that reads the prototype.
\<close>

definition objectPrototype :: "(string \<times> jsval) list" where
  "objectPrototype =
     [(''constructor'', Fn ''Object''),
      (''__defineGetter__'', Fn ''__defineGetter__''),
      (''__defineSetter__'', Fn ''__defineSetter__''),
      (''hasOwnProperty'', Fn ''hasOwnProperty''),
      (''__lookupGetter__'', Fn ''__lookupGetter__''),
      (''__lookupSetter__'', Fn ''__lookupSetter__''),
      (''isPrototypeOf'', Fn ''isPrototypeOf''),
      (''propertyIsEnumerable'', Fn ''propertyIsEnumerable''),
      (''toString'', Fn ''toString''),
      (''valueOf'', Fn ''valueOf''),
      (''toLocaleString'', Fn ''toLocaleString''),
      (''__proto__'', ObjectPrototype)]"

definition getProp :: "(string \<times> jsval) list \<Rightarrow> string \<Rightarrow> jsval option" where
  "getProp obj k = (case map_of obj k of Some v \<Rightarrow> Some v | None \<Rightarrow> map_of objectPrototype k)"

text \<open>
  \<^verbatim>\<open>obj[k] = v\<close> for a number or a string \<open>v\<close> (the reducer assigns nothing else): the
  \<^verbatim>\<open>__proto__\<close> setter ignores a value that is not an object; every other key becomes or
  stays an own property (the inherited methods are writable).
\<close>

definition setProp :: "(string \<times> jsval) list \<Rightarrow> string \<Rightarrow> jsval \<Rightarrow> (string \<times> jsval) list" where
  "setProp obj k v = (if k = ''__proto__'' then obj else AList.update k v obj)"

definition truthy :: "jsval \<Rightarrow> bool" where
  "truthy v = (case v of Num n \<Rightarrow> n \<noteq> 0 | Str s \<Rightarrow> s \<noteq> [] | Fn f \<Rightarrow> True | ObjectPrototype \<Rightarrow> True)"

text \<open>\<^verbatim>\<open>x || d\<close>, where \<open>None\<close> is \<^verbatim>\<open>undefined\<close>.\<close>

definition jsOr :: "jsval option \<Rightarrow> jsval \<Rightarrow> jsval" where
  "jsOr x d = (case x of None \<Rightarrow> d | Some v \<Rightarrow> if truthy v then v else d)"

text \<open>
  The string of a value under \<^verbatim>\<open>+\<close>; a native function prints as
  \<^verbatim>\<open>function name() { [native code] }\<close>.
\<close>

definition toStr :: "jsval \<Rightarrow> string" where
  "toStr v =
     (case v of
        Num n \<Rightarrow> numberToString n
      | Str s \<Rightarrow> s
      | Fn f \<Rightarrow> ''function '' @ f @ ''() { [native code] }''
      | ObjectPrototype \<Rightarrow> ''[object Object]'')"

text \<open>\<^verbatim>\<open>a + b\<close>: addition of two numbers, concatenation otherwise.\<close>

definition jsPlus :: "jsval \<Rightarrow> jsval \<Rightarrow> jsval" where
  "jsPlus a b =
     (case (a, b) of
        (Num x, Num y) \<Rightarrow> Num (x + y)
      | _ \<Rightarrow> Str (toStr a @ toStr b))"

text \<open>The reducer of lines 100 to 106 (and, word for word, of lines 110 to 116).\<close>

definition categoryStep :: "(string \<times> jsval) list \<Rightarrow> row \<Rightarrow> (string \<times> jsval) list" where
  "categoryStep acc r =
     (case r ''Highest Injury Severity Alleged'' of
        None \<Rightarrow> acc
      | Some severity \<Rightarrow>
          if severity \<noteq> [] \<and> severity \<noteq> ''Unknown''
          then setProp acc severity (jsPlus (jsOr (getProp acc severity) (Num 0)) (Num 1))
          else acc)"

record categoryCount =
  name :: string
  value' :: jsval

text \<open>
  \<^verbatim>\<open>Object.entries(data.reduce(..., {})).map(([name, value]) => ({ name, value }))\<close>:
  \<^verbatim>\<open>adasInjuriesData\<close> is \<open>injuriesData adasData\<close> and \<^verbatim>\<open>adsInjuriesData\<close> is
  \<open>injuriesData adsData\<close>.
\<close>

definition injuriesData :: "row list \<Rightarrow> categoryCount list" where
  "injuriesData feed =
     map (\<lambda>(n, v). \<lparr> name = n, value' = v \<rparr>) (objectEntries (foldl categoryStep [] feed))"

text \<open>\<^verbatim>\<open>items.reduce((sum, item) => sum + item.value, 0)\<close>.\<close>

definition total :: "categoryCount list \<Rightarrow> jsval" where
  "total items = foldl (\<lambda>sum item. jsPlus sum (value' item)) (Num 0) items"

section \<open>The component's state and \<^verbatim>\<open>loadData\<close>\<close>

record dashboard =
  monthlyData :: "bucket list"
  adasInjuries :: "categoryCount list"
  adsInjuries :: "categoryCount list"
  totalADAS :: jsval
  totalADS :: jsval
  isLoading :: bool
  error :: "string option"

text \<open>The \<^verbatim>\<open>useState\<close> defaults.\<close>

definition initialState :: dashboard where
  "initialState =
     \<lparr> monthlyData = [], adasInjuries = [], adsInjuries = [],
       totalADAS = Num 0, totalADS = Num 0, isLoading = True, error = None \<rparr>"

text \<open>
  A settled promise: rejected with an error whose \<^verbatim>\<open>message\<close> is kept, or fulfilled.
  A response has its \<^verbatim>\<open>ok\<close> flag and the outcome of \<^verbatim>\<open>text()\<close>.
\<close>

datatype 'a settled = Rejected string | Fulfilled 'a

record response =
  ok :: bool
  bodyText :: "string settled"

text \<open>
  What the network does to the two requests, and which of them settles first (the
  rejection \<^verbatim>\<open>Promise.all\<close> passes on when both fail).
\<close>

record network =
  adasFetch :: "response settled"
  adsFetch :: "response settled"
  adsSettlesFirst :: bool

definition promiseAll :: "network \<Rightarrow> (response \<times> response) settled" where
  "promiseAll net =
     (case (adasFetch net, adsFetch net) of
        (Fulfilled a, Fulfilled b) \<Rightarrow> Fulfilled (a, b)
      | (Rejected m, Fulfilled b) \<Rightarrow> Rejected m
      | (Fulfilled a, Rejected n) \<Rightarrow> Rejected n
      | (Rejected m, Rejected n) \<Rightarrow> Rejected (if adsSettlesFirst net then n else m))"

record results =
  monthlyDataArrayOf :: "bucket list"
  adasInjuriesData :: "categoryCount list"
  adsInjuriesData :: "categoryCount list"

text \<open>
  The body of the \<^verbatim>\<open>try\<close>: \<open>Inl\<close> carries the message of what was thrown. \<open>papaParse\<close> is
  \<^verbatim>\<open>Papa.parse(text, { header: true, skipEmptyLines: true }).data\<close>, a parameter.
\<close>

definition tryBlock ::
  "(string \<Rightarrow> row list) \<Rightarrow> dateCtor \<Rightarrow> collation \<Rightarrow> network \<Rightarrow> string + results" where
  "tryBlock papaParse newDate localeCompare net =
     (case promiseAll net of
        Rejected message \<Rightarrow> Inl message
      | Fulfilled (adasResponse, adsResponse) \<Rightarrow>
          if \<not> ok adasResponse \<or> \<not> ok adsResponse then Inl ''Failed to fetch CSV files''
          else
            (case bodyText adasResponse of
               Rejected message \<Rightarrow> Inl message
             | Fulfilled adasText \<Rightarrow>
                 (case bodyText adsResponse of
                    Rejected message \<Rightarrow> Inl message
                  | Fulfilled adsText \<Rightarrow>
                      (let adasData = papaParse adasText;
                           adsData = papaParse adsText
                       in Inr \<lparr> monthlyDataArrayOf = monthlyDataArray newDate localeCompare adasData adsData,
                                adasInjuriesData = injuriesData adasData,
                                adsInjuriesData = injuriesData adsData \<rparr>))))"

definition loadData ::
  "(string \<Rightarrow> row list) \<Rightarrow> dateCtor \<Rightarrow> collation \<Rightarrow> network \<Rightarrow> dashboard \<Rightarrow> dashboard" where
  "loadData papaParse newDate localeCompare net s =
     (let s1 = s\<lparr> isLoading := True, error := None \<rparr> in
      case tryBlock papaParse newDate localeCompare net of
        Inl message \<Rightarrow> s1\<lparr> error := Some message, isLoading := False \<rparr>
      | Inr r \<Rightarrow>
          s1\<lparr> monthlyData := monthlyDataArrayOf r,
              adasInjuries := adasInjuriesData r,
              adsInjuries := adsInjuriesData r,
              totalADAS := total (adasInjuriesData r),
              totalADS := total (adsInjuriesData r),
              isLoading := False \<rparr>)"

text \<open>What the component returns: the three mutually exclusive views of lines 150 to 166.\<close>

datatype view =
    LoadingView
  | ErrorView string
  | DashboardView "bucket list" "categoryCount list" "categoryCount list" jsval jsval

definition render :: "dashboard \<Rightarrow> view" where
  "render s =
     (if isLoading s then LoadingView
      else
        (case error s of
           Some e \<Rightarrow>
             if e \<noteq> [] then ErrorView e
             else DashboardView (monthlyData s) (adasInjuries s) (adsInjuries s) (totalADAS s) (totalADS s)
         | None \<Rightarrow>
             DashboardView (monthlyData s) (adasInjuries s) (adsInjuries s) (totalADAS s) (totalADS s)))"

section \<open>Vocabulary of the statements\<close>

text \<open>The test \<^verbatim>\<open>!isNaN(date.getTime())\<close> of line 84, on a row.\<close>

definition validDate :: "dateCtor \<Rightarrow> row \<Rightarrow> bool" where
  "validDate newDate r = (newDate (r ''Incident Date'') \<noteq> InvalidDate)"

text \<open>The local (year, month index) of a row's date, when the date is valid.\<close>

definition rowMonth :: "dateCtor \<Rightarrow> row \<Rightarrow> (int \<times> nat) option" where
  "rowMonth newDate r =
     (case newDate (r ''Incident Date'') of InvalidDate \<Rightarrow> None | LocalDate y m \<Rightarrow> Some (y, m))"

text \<open>The key line 85 computes for a row with a valid date.\<close>

definition rowKey :: "dateCtor \<Rightarrow> row \<Rightarrow> string option" where
  "rowKey newDate r = map_option (\<lambda>(y, m). monthKey y m) (rowMonth newDate r)"

text \<open>\<^verbatim>\<open>monthlyAccidents[key]?.count || 0\<close>.\<close>

definition countOf :: "(string \<times> bucket) list \<Rightarrow> string \<Rightarrow> nat" where
  "countOf acc k = orZero (map_option count (map_of acc k))"

text \<open>Every bucket is stored under its own \<open>sortKey\<close>.\<close>

definition keyed :: "(string \<times> bucket) list \<Rightarrow> bool" where
  "keyed acc = list_all (\<lambda>(k, b). sortKey b = k) acc"

text \<open>The two-character month of a key: \<^verbatim>\<open>String(getMonth() + 1).padStart(2, '0')\<close>.\<close>

definition monthField :: "nat \<Rightarrow> string" where
  "monthField m = padStart (numberToString (int m + 1)) 2 CHR ''0''"

text \<open>
  The test \<^verbatim>\<open>severity && severity !== 'Unknown'\<close> of line 102, on a row: the cell is
  present, not empty and not the sentinel.
\<close>

definition countedSeverity :: "row \<Rightarrow> bool" where
  "countedSeverity r =
     (case r ''Highest Injury Severity Alleged'' of
        None \<Rightarrow> False
      | Some severity \<Rightarrow> severity \<noteq> [] \<and> severity \<noteq> ''Unknown'')"

text \<open>The names a fresh object inherits: the keys of \<open>objectPrototype\<close>.\<close>

definition inheritedName :: "string \<Rightarrow> bool" where
  "inheritedName k = (k \<in> set (map fst objectPrototype))"

text \<open>The severity cell of a row.\<close>

definition severityOf :: "row \<Rightarrow> string option" where
  "severityOf r = r ''Highest Injury Severity Alleged''"

text \<open>A value that is a count: a positive number.\<close>

definition isCount :: "jsval \<Rightarrow> bool" where
  "isCount v = (case v of Num n \<Rightarrow> 0 < n | _ \<Rightarrow> False)"

text \<open>The number a value holds, \<open>0\<close> for every value that is not a number.\<close>

definition numOf :: "jsval \<Rightarrow> int" where
  "numOf v = (case v of Num n \<Rightarrow> n | _ \<Rightarrow> 0)"

text \<open>The object the reducer returns for a feed.\<close>

definition categoryObject :: "row list \<Rightarrow> (string \<times> jsval) list" where
  "categoryObject feed = foldl categoryStep [] feed"

text \<open>No severity cell of the feed is the name of an inherited property.\<close>

definition cleanFeed :: "row list \<Rightarrow> bool" where
  "cleanFeed feed =
     list_all (\<lambda>r. case severityOf r of None \<Rightarrow> True | Some k \<Rightarrow> \<not> inheritedName k) feed"

text \<open>\<^verbatim>\<open>acc[k] || 0\<close> as a number, for an accumulator of counts.\<close>

definition countIn :: "(string \<times> jsval) list \<Rightarrow> string \<Rightarrow> int" where
  "countIn acc k = numOf (jsOr (map_of acc k) (Num 0))"

text \<open>Every bucket carries the labels of the month its key is made from.\<close>

definition labelled :: "(string \<times> bucket) list \<Rightarrow> bool" where
  "labelled acc =
     list_all (\<lambda>(k, b). \<exists>y m. k = monthKey y m
                 \<and> date b = formatDate (LocalDate y m)
                 \<and> axisDate b = formatAxisDate (LocalDate y m)) acc"

text \<open>A request failed: it was rejected, or its response is not \<^verbatim>\<open>ok\<close>.\<close>

definition requestFailed :: "response settled \<Rightarrow> bool" where
  "requestFailed f = (case f of Rejected message \<Rightarrow> True | Fulfilled r \<Rightarrow> \<not> ok r)"

text \<open>A request succeeded with the given text.\<close>

definition deliveredText :: "response settled \<Rightarrow> string \<Rightarrow> bool" where
  "deliveredText f t =
     (case f of Rejected message \<Rightarrow> False | Fulfilled r \<Rightarrow> ok r \<and> bodyText r = Fulfilled t)"

text \<open>Text made of decimal digits and \<open>-\<close>, as every key is.\<close>

definition keyText :: "string \<Rightarrow> bool" where
  "keyText s = list_all (\<lambda>c. isDigit c \<or> c = CHR ''-'') s"

section \<open>Sample inputs\<close>

text \<open>
  One instance of the host's constructor, for the examples: a host in the zone UTC reading
  the ISO form \<^verbatim>\<open>YYYY-MM-DD\<close> (the day is not inspected); every other text, and a missing
  cell, gives an invalid date.
\<close>

definition isoDate :: dateCtor where
  "isoDate x =
     (case x of
        None \<Rightarrow> InvalidDate
      | Some s \<Rightarrow>
          if length s = 10 \<and> s ! 4 = CHR ''-'' \<and> s ! 7 = CHR ''-''
             \<and> list_all isDigit (take 4 s @ take 2 (drop 5 s) @ drop 8 s)
             \<and> 1 \<le> natOfDigits (take 2 (drop 5 s)) \<and> natOfDigits (take 2 (drop 5 s)) \<le> 12
          then LocalDate (int (natOfDigits (take 4 s))) (natOfDigits (take 2 (drop 5 s)) - 1)
          else InvalidDate)"

text \<open>
  Two instances of the host's collation, for the examples. The first orders text as its
  code units are ordered, which on digits and \<open>-\<close> is what a collation that does not
  ignore punctuation does. The second ignores the hyphen, as a collation that ignores
  punctuation does, and orders the remaining text.
\<close>

definition codeUnitCompare :: collation where
  "codeUnitCompare a b = (if a < b then - 1 else if a = b then 0 else 1)"

definition hyphenBlindCompare :: collation where
  "hyphenBlindCompare a b =
     codeUnitCompare (filter (\<lambda>c. c \<noteq> CHR ''-'') a) (filter (\<lambda>c. c \<noteq> CHR ''-'') b)"

text \<open>A row with the two columns the dashboard reads.\<close>

definition incident :: "string \<Rightarrow> string \<Rightarrow> row" where
  "incident d severity =
     [''Incident Date'' \<mapsto> d, ''Highest Injury Severity Alleged'' \<mapsto> severity]"

text \<open>An instance of the parser, for the examples: it knows the rows of the listed texts.\<close>

definition parseTable :: "(string \<times> row list) list \<Rightarrow> string \<Rightarrow> row list" where
  "parseTable t s = (case map_of t s of None \<Rightarrow> [] | Some rows \<Rightarrow> rows)"

section \<open>Sorting with a comparator\<close>

lemma set_insertSorted: "set (insertSorted c x xs) = insert x (set xs)"
  by (induction xs) auto

lemma set_arraySort: "set (arraySort c xs) = set xs"
  by (induction xs) (simp_all add: arraySort_def set_insertSorted)

lemma length_insertSorted: "length (insertSorted c x xs) = Suc (length xs)"
  by (induction xs) simp_all

lemma length_arraySort: "length (arraySort c xs) = length xs"
  by (induction xs) (simp_all add: arraySort_def length_insertSorted)

lemma sum_list_insertSorted:
  "sum_list (map f (insertSorted c x xs)) = (f x :: 'a :: comm_monoid_add) + sum_list (map f xs)"
  by (induction xs) (simp_all add: ac_simps)

lemma sum_list_arraySort:
  "sum_list (map f (arraySort c xs)) = (sum_list (map f xs) :: 'a :: comm_monoid_add)"
  by (induction xs) (simp_all add: arraySort_def sum_list_insertSorted)

lemma distinct_map_insertSorted:
  "distinct (map f (insertSorted c x xs)) = (f x \<notin> f ` set xs \<and> distinct (map f xs))"
  by (induction xs) (auto simp add: set_insertSorted)

lemma distinct_map_arraySort:
  "distinct (map f (arraySort c xs)) = distinct (map f xs)"
proof (induction xs)
  case Nil
  then show ?case by (simp add: arraySort_def)
next
  case (Cons x xs)
  have "arraySort c (x # xs) = insertSorted c x (arraySort c xs)"
    by (simp add: arraySort_def)
  then show ?case
    using Cons by (simp add: distinct_map_insertSorted set_arraySort)
qed

lemma sorted_insertSorted:
  assumes total: "\<And>a b. P a \<Longrightarrow> P b \<Longrightarrow> c a b \<le> 0 \<or> c b a \<le> 0"
    and trans: "\<And>a b d. P a \<Longrightarrow> P b \<Longrightarrow> P d \<Longrightarrow> c a b \<le> 0 \<Longrightarrow> c b d \<le> 0 \<Longrightarrow> c a d \<le> 0"
    and "P x" "list_all P xs" "sorted_wrt (\<lambda>a b. c a b \<le> 0) xs"
  shows "sorted_wrt (\<lambda>a b. c a b \<le> 0) (insertSorted c x xs)"
  using assms(3-)
proof (induction xs)
  case Nil
  then show ?case by simp
next
  case (Cons y ys)
  show ?case
  proof (cases "c x y \<le> 0")
    case True
    have "\<And>z. z \<in> set ys \<Longrightarrow> c x z \<le> 0"
    proof -
      fix z assume z: "z \<in> set ys"
      then have "c y z \<le> 0" "P z" using Cons.prems by (auto simp add: list_all_iff)
      moreover have "P y" using Cons.prems by simp
      ultimately show "c x z \<le> 0" using trans [of x y z] True Cons.prems(1) by blast
    qed
    then show ?thesis using True Cons.prems by auto
  next
    case False
    have "P y" using Cons.prems by simp
    then have yx: "c y x \<le> 0" using total [of x y] False Cons.prems(1) by blast
    have "sorted_wrt (\<lambda>a b. c a b \<le> 0) (insertSorted c x ys)"
      using Cons by simp
    then show ?thesis
      using False yx Cons.prems by (auto simp add: set_insertSorted)
  qed
qed

lemma sorted_arraySort:
  assumes total: "\<And>a b. P a \<Longrightarrow> P b \<Longrightarrow> c a b \<le> 0 \<or> c b a \<le> 0"
    and trans: "\<And>a b d. P a \<Longrightarrow> P b \<Longrightarrow> P d \<Longrightarrow> c a b \<le> 0 \<Longrightarrow> c b d \<le> 0 \<Longrightarrow> c a d \<le> 0"
    and "list_all P xs"
  shows "sorted_wrt (\<lambda>a b. c a b \<le> 0) (arraySort c xs)"
  using assms(3)
proof (induction xs)
  case Nil
  then show ?case by (simp add: arraySort_def)
next
  case (Cons x xs)
  have step: "arraySort c (x # xs) = insertSorted c x (arraySort c xs)"
    by (simp add: arraySort_def)
  have "list_all P (arraySort c xs)"
    using Cons.prems by (simp add: list_all_iff set_arraySort)
  moreover have "P x" using Cons.prems by simp
  moreover have "sorted_wrt (\<lambda>a b. c a b \<le> 0) (arraySort c xs)"
    using Cons by simp
  ultimately show ?case
    unfolding step using sorted_insertSorted [of P c x "arraySort c xs"] total trans by blast
qed

section \<open>The monthly loop\<close>

lemma orZero_simps [simp]: "orZero None = 0" "orZero (Some n) = n"
  by (simp_all add: orZero_def)

lemma monthlyStep_invalid: "rowMonth nd r = None \<Longrightarrow> monthlyStep nd acc r = acc"
  by (simp add: rowMonth_def monthlyStep_def split: jsdate.splits)

lemma monthlyStep_valid:
  "rowMonth nd r = Some (y, m) \<Longrightarrow>
   monthlyStep nd acc r =
     AList.update (monthKey y m)
       \<lparr> date = formatDate (LocalDate y m), axisDate = formatAxisDate (LocalDate y m),
         count = countOf acc (monthKey y m) + 1, sortKey = monthKey y m \<rparr> acc"
  by (simp add: rowMonth_def monthlyStep_def countOf_def Let_def split: jsdate.splits)

lemma countOf_step:
  "countOf (monthlyStep nd acc r) k = countOf acc k + (if rowKey nd r = Some k then 1 else 0)"
proof (cases "rowMonth nd r")
  case None
  then show ?thesis by (simp add: monthlyStep_invalid rowKey_def)
next
  case (Some ym)
  obtain y m where ym: "ym = (y, m)" by (cases ym)
  show ?thesis
    using Some unfolding ym
    by (simp add: monthlyStep_valid rowKey_def countOf_def update_conv')
qed

lemma countOf_foldl:
  "countOf (foldl (monthlyStep nd) acc rows) k =
     countOf acc k + length (filter (\<lambda>r. rowKey nd r = Some k) rows)"
  by (induction rows arbitrary: acc) (simp_all add: countOf_step)

lemma keys_step:
  "set (map fst (monthlyStep nd acc r)) = set (map fst acc) \<union> set_option (rowKey nd r)"
proof (cases "rowMonth nd r")
  case None
  then show ?thesis by (simp add: monthlyStep_invalid rowKey_def)
next
  case (Some ym)
  obtain y m where ym: "ym = (y, m)" by (cases ym)
  show ?thesis
    using Some unfolding ym
    by (auto simp add: monthlyStep_valid rowKey_def update_keys simp del: set_map)
qed

lemma keys_foldl:
  "set (map fst (foldl (monthlyStep nd) acc rows)) =
     set (map fst acc) \<union> {k. \<exists>r\<in>set rows. rowKey nd r = Some k}"
proof (induction rows arbitrary: acc)
  case Nil
  then show ?case by simp
next
  case (Cons r rows)
  show ?case
    unfolding foldl_Cons Cons.IH keys_step
    by (auto simp add: elem_set)
qed

lemma distinct_step:
  "distinct (map fst acc) \<Longrightarrow> distinct (map fst (monthlyStep nd acc r))"
  by (simp add: monthlyStep_def distinct_update Let_def split: jsdate.splits)

lemma distinct_foldl:
  "distinct (map fst acc) \<Longrightarrow> distinct (map fst (foldl (monthlyStep nd) acc rows))"
  by (induction rows arbitrary: acc) (simp_all add: distinct_step)

lemma set_update_subset: "set (AList.update k v al) \<subseteq> insert (k, v) (set al)"
  by (induction al) auto

lemma keyed_step: "keyed acc \<Longrightarrow> keyed (monthlyStep nd acc r)"
proof (cases "rowMonth nd r")
  case None
  assume "keyed acc"
  with None show ?thesis by (simp add: monthlyStep_invalid)
next
  case (Some ym)
  assume k: "keyed acc"
  obtain y m where ym: "ym = (y, m)" by (cases ym)
  show ?thesis
    using Some k set_update_subset unfolding ym keyed_def list_all_iff
    by (fastforce simp add: monthlyStep_valid)
qed

lemma keyed_foldl: "keyed acc \<Longrightarrow> keyed (foldl (monthlyStep nd) acc rows)"
  by (induction rows arbitrary: acc) (simp_all add: keyed_step)

lemma sum_update:
  "sum_list (map (\<lambda>p. f (snd p)) (AList.update k v al)) + (case map_of al k of None \<Rightarrow> 0 | Some w \<Rightarrow> f w)
     = sum_list (map (\<lambda>p. f (snd p)) al) + (f v :: 'a :: comm_monoid_add)"
  by (induction al) (auto simp add: ac_simps)

lemma sum_step:
  "sum_list (map (\<lambda>p. count (snd p)) (monthlyStep nd acc r)) =
     sum_list (map (\<lambda>p. count (snd p)) acc) + (if validDate nd r then 1 else 0)"
proof (cases "rowMonth nd r")
  case None
  then show ?thesis
    by (simp add: monthlyStep_invalid) (simp add: rowMonth_def validDate_def split: jsdate.splits)
next
  case (Some ym)
  obtain y m where ym: "ym = (y, m)" by (cases ym)
  have v: "validDate nd r"
    using Some by (simp add: rowMonth_def validDate_def split: jsdate.splits)
  have c: "(case map_of acc (monthKey y m) of None \<Rightarrow> 0 | Some w \<Rightarrow> count w) = countOf acc (monthKey y m)"
    by (simp add: countOf_def split: option.splits)
  let ?b = "\<lparr> date = formatDate (LocalDate y m), axisDate = formatAxisDate (LocalDate y m),
         count = countOf acc (monthKey y m) + 1, sortKey = monthKey y m \<rparr>"
  have "sum_list (map (\<lambda>p. count (snd p)) (AList.update (monthKey y m) ?b acc)) + countOf acc (monthKey y m)
          = sum_list (map (\<lambda>p. count (snd p)) acc) + count ?b"
    using sum_update [of count "monthKey y m" ?b acc] unfolding c .
  then show ?thesis
    using Some v unfolding ym
    by (simp add: monthlyStep_valid)
qed

lemma sum_foldl:
  "sum_list (map (\<lambda>p. count (snd p)) (foldl (monthlyStep nd) acc rows)) =
     sum_list (map (\<lambda>p. count (snd p)) acc) + length (filter (validDate nd) rows)"
  by (induction rows arbitrary: acc) (simp_all add: sum_step)

lemma sum_list_insort_key:
  "sum_list (map f (insort_key g x xs)) = (f x :: 'a :: comm_monoid_add) + sum_list (map f xs)"
  by (induction xs) (simp_all add: ac_simps)

lemma sum_list_sort_key:
  "sum_list (map f (sort_key g xs)) = (sum_list (map f xs) :: 'a :: comm_monoid_add)"
  by (induction xs) (simp_all add: sum_list_insort_key)

section \<open>Decimal text and month keys\<close>

lemma below_ten: "(d::nat) < 10 \<Longrightarrow> d \<in> {0, 1, 2, 3, 4, 5, 6, 7, 8, 9}"
  by auto

lemma digitVal_digitChar: "d < 10 \<Longrightarrow> digitVal (digitChar d) = d"
  using below_ten [of d] by (auto simp add: digitVal_def digitChar_def)

lemma isDigit_digitChar: "d < 10 \<Longrightarrow> isDigit (digitChar d)"
  using below_ten [of d] by (auto simp add: isDigit_def digitChar_def)

lemma natOfDigits_snoc: "natOfDigits (s @ [c]) = 10 * natOfDigits s + digitVal c"
  by (simp add: natOfDigits_def)

lemma natOfDigits_digitsOf: "natOfDigits (digitsOf n) = n"
proof (induction n rule: digitsOf.induct)
  case (1 n)
  show ?case
  proof (cases "n < 10")
    case True
    then show ?thesis
      by (subst digitsOf.simps) (simp add: natOfDigits_def digitVal_digitChar)
  next
    case False
    then have "natOfDigits (digitsOf n) = 10 * natOfDigits (digitsOf (n div 10)) + digitVal (digitChar (n mod 10))"
      by (subst digitsOf.simps) (simp add: natOfDigits_snoc)
    also have "\<dots> = 10 * (n div 10) + n mod 10"
      using 1 False by (simp add: digitVal_digitChar)
    finally show ?thesis by simp
  qed
qed

lemma digitsOf_digits: "list_all isDigit (digitsOf n)"
proof (induction n rule: digitsOf.induct)
  case (1 n)
  show ?case
    by (subst digitsOf.simps) (use 1 in \<open>simp add: isDigit_digitChar\<close>)
qed

lemma digitsOf_nonempty: "digitsOf n \<noteq> []"
  by (subst digitsOf.simps) simp

lemma dash_not_digit: "\<not> isDigit CHR ''-''"
  by (simp add: isDigit_def)

lemma natOfDigits_zeros: "natOfDigits (replicate k CHR ''0'' @ s) = natOfDigits s"
proof -
  have "foldl (\<lambda>a c. 10 * a + digitVal c) 0 (replicate k CHR ''0'') = 0"
    by (induction k) (simp_all add: replicate_app_Cons_same digitVal_def)
  then show ?thesis by (simp add: natOfDigits_def)
qed

lemma numberToString_inj: "numberToString a = numberToString b \<Longrightarrow> a = b"
proof -
  assume eq: "numberToString a = numberToString b"
  have hd: "\<And>n. hd (digitsOf n) \<noteq> CHR ''-''"
  proof -
    fix n
    have "isDigit (hd (digitsOf n))"
      using digitsOf_digits [of n] digitsOf_nonempty [of n]
      by (cases "digitsOf n") simp_all
    then show "hd (digitsOf n) \<noteq> CHR ''-''" using dash_not_digit by auto
  qed
  have inj: "\<And>m n. digitsOf m = digitsOf n \<Longrightarrow> m = n"
    by (metis natOfDigits_digitsOf)
  show ?thesis
  proof (cases "a < 0"; cases "b < 0")
    assume "a < 0" "b < 0"
    then show ?thesis using eq inj [of "nat (- a)" "nat (- b)"] by (simp add: numberToString_def)
  next
    assume "a < 0" "\<not> b < 0"
    then have "CHR ''-'' # digitsOf (nat (- a)) = digitsOf (nat b)"
      using eq by (simp add: numberToString_def)
    then show ?thesis using hd [of "nat b"] by (metis list.sel(1))
  next
    assume "\<not> a < 0" "b < 0"
    then have "CHR ''-'' # digitsOf (nat (- b)) = digitsOf (nat a)"
      using eq by (simp add: numberToString_def)
    then show ?thesis using hd [of "nat a"] by (metis list.sel(1))
  next
    assume "\<not> a < 0" "\<not> b < 0"
    then show ?thesis using eq inj [of "nat a" "nat b"] by (simp add: numberToString_def)
  qed
qed

lemma split_at_last:
  "c \<notin> set p \<Longrightarrow> c \<notin> set q \<Longrightarrow> a @ c # p = b @ c # q \<Longrightarrow> a = b \<and> p = q"
proof (induction a arbitrary: b)
  case Nil
  then show ?case by (cases b) auto
next
  case (Cons x a)
  then show ?case by (cases b) auto
qed

lemma monthField_digits: "list_all isDigit (monthField m)"
proof -
  have z: "isDigit CHR ''0''" by (simp add: isDigit_def)
  show ?thesis
    using digitsOf_digits [of "Suc m"] z
    by (auto simp add: monthField_def padStart_def numberToString_def list_all_iff nat_add_distrib)
qed

lemma monthField_value: "natOfDigits (monthField m) = Suc m"
  by (simp add: monthField_def padStart_def numberToString_def natOfDigits_zeros natOfDigits_digitsOf nat_add_distrib)

lemma monthKey_inj: "monthKey y m = monthKey y' m' \<Longrightarrow> y = y' \<and> m = m'"
proof -
  assume eq: "monthKey y m = monthKey y' m'"
  have nd: "\<And>k. CHR ''-'' \<notin> set (monthField k)"
    using monthField_digits dash_not_digit by (auto simp add: list_all_iff)
  have "numberToString y @ CHR ''-'' # monthField m = numberToString y' @ CHR ''-'' # monthField m'"
    using eq by (simp add: monthKey_def monthField_def)
  then have "numberToString y = numberToString y' \<and> monthField m = monthField m'"
    using split_at_last [OF nd nd] by blast
  then show ?thesis
    using numberToString_inj monthField_value by (metis Suc_inject)
qed

section \<open>Property order and the accumulated buckets\<close>

lemma objectEntries_no_index:
  "list_all (\<lambda>p. \<not> isArrayIndex (fst p)) obj \<Longrightarrow> objectEntries obj = obj"
  by (simp add: objectEntries_def list_all_iff)

lemma dash_in_monthKey: "CHR ''-'' \<in> set (monthKey y m)"
  by (simp add: monthKey_def)

lemma monthKey_not_index: "\<not> isArrayIndex (monthKey y m)"
  using dash_in_monthKey [of y m] dash_not_digit
  by (auto simp add: isArrayIndex_def list_all_iff)

lemma monthKey_not_inherited: "\<not> inheritedName (monthKey y m)"
proof
  assume "inheritedName (monthKey y m)"
  then have "CHR ''-'' \<notin> set (monthKey y m)"
    by (auto simp add: inheritedName_def objectPrototype_def)
  then show False using dash_in_monthKey by simp
qed

lemma objectEntries_monthly:
  "objectEntries (monthlyAccidents nd A B) = monthlyAccidents nd A B"
proof (rule objectEntries_no_index)
  have "\<And>k. k \<in> set (map fst (monthlyAccidents nd A B)) \<Longrightarrow> \<not> isArrayIndex k"
  proof -
    fix k
    assume "k \<in> set (map fst (monthlyAccidents nd A B))"
    then obtain r where "rowKey nd r = Some k"
      unfolding monthlyAccidents_def keys_foldl by auto
    then obtain y m where "k = monthKey y m"
      by (auto simp add: rowKey_def)
    then show "\<not> isArrayIndex k" by (simp add: monthKey_not_index)
  qed
  then show "list_all (\<lambda>p. \<not> isArrayIndex (fst p)) (monthlyAccidents nd A B)"
    by (auto simp add: list_all_iff)
qed

lemma keyed_keys: "keyed acc \<Longrightarrow> map sortKey (map snd acc) = map fst acc"
  by (induction acc) (auto simp add: keyed_def)

lemma monthlyAccidents_keyed: "keyed (monthlyAccidents nd A B)"
  unfolding monthlyAccidents_def by (rule keyed_foldl) (simp add: keyed_def)

lemma monthlyAccidents_distinct: "distinct (map fst (monthlyAccidents nd A B))"
  unfolding monthlyAccidents_def by (rule distinct_foldl) simp

lemma monthlyAccidents_keys:
  "set (map fst (monthlyAccidents nd A B)) = {k. \<exists>r\<in>set (A @ B). rowKey nd r = Some k}"
  unfolding monthlyAccidents_def keys_foldl by simp

lemma monthlyAccidents_countOf:
  "countOf (monthlyAccidents nd A B) k = length (filter (\<lambda>r. rowKey nd r = Some k) (A @ B))"
  unfolding monthlyAccidents_def countOf_foldl by (simp add: countOf_def)

lemma unsorted_sortKeys_distinct: "distinct (map sortKey (map snd (monthlyAccidents nd A B)))"
  using keyed_keys [OF monthlyAccidents_keyed] monthlyAccidents_distinct by metis

lemma sortKeys_distinct: "distinct (map sortKey (monthlyDataArray nd lc A B))"
  unfolding monthlyDataArray_def objectEntries_monthly distinct_map_arraySort
  by (rule unsorted_sortKeys_distinct)

lemma bucket_count:
  assumes "b \<in> set (monthlyDataArray nd lc A B)"
  shows "count b = length (filter (\<lambda>r. rowKey nd r = Some (sortKey b)) (A @ B))"
proof -
  from assms obtain k where kb: "(k, b) \<in> set (monthlyAccidents nd A B)"
    by (auto simp add: monthlyDataArray_def objectEntries_monthly set_arraySort)
  have "sortKey b = k"
    using monthlyAccidents_keyed [of nd A B] kb by (auto simp add: keyed_def list_all_iff)
  moreover have "map_of (monthlyAccidents nd A B) k = Some b"
    using kb monthlyAccidents_distinct by simp
  then have "countOf (monthlyAccidents nd A B) k = count b"
    by (simp add: countOf_def)
  ultimately show ?thesis by (simp add: monthlyAccidents_countOf)
qed

lemma rowKey_eq_month:
  "rowKey nd r = Some (monthKey y m) \<longleftrightarrow> rowMonth nd r = Some (y, m)"
  by (auto simp add: rowKey_def dest: monthKey_inj)

lemma monthly_length:
  "length (monthlyDataArray nd lc A B) = card (set (List.map_filter (rowMonth nd) (A @ B)))"
proof -
  let ?M = "set (List.map_filter (rowMonth nd) (A @ B))"
  have "length (monthlyDataArray nd lc A B) = card (set (map fst (monthlyAccidents nd A B)))"
    using distinct_card [OF monthlyAccidents_distinct [of nd A B]]
    by (simp add: monthlyDataArray_def objectEntries_monthly length_arraySort)
  also have "set (map fst (monthlyAccidents nd A B)) = (\<lambda>(y, m). monthKey y m) ` ?M"
    unfolding monthlyAccidents_keys
    by (force simp add: rowKey_def map_filter_def image_iff split: option.splits)
  also have "card \<dots> = card ?M"
    by (rule card_image) (auto simp add: inj_on_def dest: monthKey_inj)
  finally show ?thesis .
qed

lemma monthly_sum:
  "sum_list (map count (monthlyDataArray nd lc A B)) = length (filter (validDate nd) (A @ B))"
proof -
  have "sum_list (map count (monthlyDataArray nd lc A B)) =
          sum_list (map (\<lambda>p. count (snd p)) (monthlyAccidents nd A B))"
    unfolding monthlyDataArray_def objectEntries_monthly sum_list_arraySort
    by (simp add: comp_def)
  also have "\<dots> = length (filter (validDate nd) (A @ B))"
    unfolding monthlyAccidents_def sum_foldl by simp
  finally show ?thesis .
qed

lemma monthlyStep_filter:
  "foldl (monthlyStep nd) acc (filter (validDate nd) rows) = foldl (monthlyStep nd) acc rows"
proof (induction rows arbitrary: acc)
  case Nil
  then show ?case by simp
next
  case (Cons r rows)
  have "\<not> validDate nd r \<Longrightarrow> monthlyStep nd acc r = acc"
    by (simp add: validDate_def monthlyStep_def)
  then show ?case using Cons by auto
qed

section \<open>The monthly buckets: claims\<close>

lemmas date_eval = isoDate_def incident_def isDigit_def natOfDigits_def digitVal_def
  digitsOf.simps digitChar_def numberToString_def padStart_def monthKey_def
  formatDate_def formatAxisDate_def monthName_def MONTHS_def

lemmas monthly_eval = monthlyDataArray_def arraySort_def codeUnitCompare_def monthlyAccidents_def monthlyStep_def orZero_def
  objectEntries_def isArrayIndex_def validDate_def rowMonth_def rowKey_def Let_def

lemma filter_unique:
  "distinct (map f xs) \<Longrightarrow> x \<in> set xs \<Longrightarrow> filter (\<lambda>b. f b = f x) xs = [x]"
proof (induction xs)
  case Nil
  then show ?case by simp
next
  case (Cons a xs)
  show ?case
  proof (cases "a = x")
    case True
    then have "filter (\<lambda>b. f b = f x) xs = []"
      using Cons.prems(1) by (auto simp add: filter_empty_conv image_iff)
    then show ?thesis using True by simp
  next
    case False
    then have "x \<in> set xs" using Cons.prems(2) by simp
    moreover have "f a \<noteq> f x" using Cons.prems(1) \<open>x \<in> set xs\<close> by auto
    ultimately show ?thesis using Cons by simp
  qed
qed

text \<open>
  Claim C1. The counts of the buckets add up to the number of rows of both feeds whose
  \<^verbatim>\<open>Incident Date\<close> gives a valid date; there are at most as many buckets as distinct
  valid (year, month) pairs in both feeds; the count of a bucket is the number of rows
  with a valid date and that bucket's key, so a row with an invalid date adds to no
  count: the result is the one of the feeds with those rows removed.
\<close>

theorem monthly_counts_valid_records:
  "sum_list (map count (monthlyDataArray newDate localeCompare adasData adsData)) =
     length (filter (validDate newDate) adasData) + length (filter (validDate newDate) adsData)
   \<and> length (monthlyDataArray newDate localeCompare adasData adsData)
       \<le> length (remdups (List.map_filter (rowMonth newDate) (adasData @ adsData)))
   \<and> (\<forall>b \<in> set (monthlyDataArray newDate localeCompare adasData adsData).
        count b = length (filter (\<lambda>r. rowKey newDate r = Some (sortKey b)) (adasData @ adsData)))
   \<and> monthlyDataArray newDate localeCompare (filter (validDate newDate) adasData) (filter (validDate newDate) adsData)
       = monthlyDataArray newDate localeCompare adasData adsData"
proof -
  have a: "sum_list (map count (monthlyDataArray newDate localeCompare adasData adsData)) =
     length (filter (validDate newDate) adasData) + length (filter (validDate newDate) adsData)"
    by (simp add: monthly_sum)
  have b: "length (monthlyDataArray newDate localeCompare adasData adsData)
       \<le> length (remdups (List.map_filter (rowMonth newDate) (adasData @ adsData)))"
    by (simp add: monthly_length length_remdups_card_conv)
  have c: "\<forall>b \<in> set (monthlyDataArray newDate localeCompare adasData adsData).
        count b = length (filter (\<lambda>r. rowKey newDate r = Some (sortKey b)) (adasData @ adsData))"
    using bucket_count by blast
  have "monthlyAccidents newDate (filter (validDate newDate) adasData) (filter (validDate newDate) adsData)
       = monthlyAccidents newDate adasData adsData"
    unfolding monthlyAccidents_def
    using monthlyStep_filter [of newDate "[]" "adasData @ adsData"] by simp
  then have d: "monthlyDataArray newDate localeCompare (filter (validDate newDate) adasData) (filter (validDate newDate) adsData)
       = monthlyDataArray newDate localeCompare adasData adsData"
    by (simp add: monthlyDataArray_def)
  from a b c d show ?thesis by blast
qed

theorem monthly_counts_valid_records_witness:
  "map count (monthlyDataArray isoDate codeUnitCompare
       [incident ''2021-05-03'' ''Minor'', incident ''2020-12-31'' ''Unknown'']
       [incident ''2021-05-09'' ''Minor'', incident '''' ''Serious'']) = [1, 2]
   \<and> sum_list (map count (monthlyDataArray isoDate codeUnitCompare
       [incident ''2021-05-03'' ''Minor'', incident ''2020-12-31'' ''Unknown'']
       [incident ''2021-05-09'' ''Minor'', incident '''' ''Serious''])) = 2 + 1
   \<and> length (remdups (List.map_filter (rowMonth isoDate)
       ([incident ''2021-05-03'' ''Minor'', incident ''2020-12-31'' ''Unknown'']
        @ [incident ''2021-05-09'' ''Minor'', incident '''' ''Serious'']))) = 2"
  using monthly_counts_valid_records [of isoDate codeUnitCompare
       "[incident ''2021-05-03'' ''Minor'', incident ''2020-12-31'' ''Unknown'']"
       "[incident ''2021-05-09'' ''Minor'', incident '''' ''Serious'']"]
  by (simp add: date_eval monthly_eval map_filter_def)

lemma codeUnitCompare_le: "(codeUnitCompare a b \<le> 0) = (a \<le> b)"
  by (auto simp add: codeUnitCompare_def)

lemma hyphenBlindCompare_le:
  "(hyphenBlindCompare a b \<le> 0)
     = (filter (\<lambda>c. c \<noteq> CHR ''-'') a \<le> filter (\<lambda>c. c \<noteq> CHR ''-'') b)"
  by (simp add: hyphenBlindCompare_def codeUnitCompare_le)

lemma hyphenBlindCompare_consistent:
  "hyphenBlindCompare a b \<le> 0 \<or> hyphenBlindCompare b a \<le> 0"
  "hyphenBlindCompare a b \<le> 0 \<Longrightarrow> hyphenBlindCompare b c \<le> 0 \<Longrightarrow> hyphenBlindCompare a c \<le> 0"
  unfolding hyphenBlindCompare_le by auto

lemma keyText_monthKey: "keyText (monthKey y m)"
proof -
  have d: "\<And>n. list_all (\<lambda>c. isDigit c \<or> c = CHR ''-'') (digitsOf n)"
    using digitsOf_digits by (auto simp add: list_all_iff)
  have "list_all (\<lambda>c. isDigit c \<or> c = CHR ''-'') (numberToString y)"
    using d by (simp add: numberToString_def)
  moreover have "list_all (\<lambda>c. isDigit c \<or> c = CHR ''-'') (monthField m)"
    using monthField_digits [of m] by (auto simp add: list_all_iff)
  ultimately show ?thesis
    by (simp add: keyText_def monthKey_def monthField_def)
qed

lemma bucket_keyText: "list_all (\<lambda>b. keyText (sortKey b)) (map snd (monthlyAccidents nd A B))"
proof -
  have "\<And>k. k \<in> set (map fst (monthlyAccidents nd A B)) \<Longrightarrow> keyText k"
  proof -
    fix k
    assume "k \<in> set (map fst (monthlyAccidents nd A B))"
    then obtain r where "rowKey nd r = Some k"
      unfolding monthlyAccidents_keys by auto
    then obtain y m where "k = monthKey y m"
      by (auto simp add: rowKey_def)
    then show "keyText k" by (simp add: keyText_monthKey)
  qed
  then have "list_all keyText (map sortKey (map snd (monthlyAccidents nd A B)))"
    unfolding keyed_keys [OF monthlyAccidents_keyed] by (simp add: list_all_iff)
  then show ?thesis by (simp add: list_all_iff)
qed

lemma sortKeys_sorted:
  assumes total: "\<And>a b. keyText a \<Longrightarrow> keyText b \<Longrightarrow> lc a b \<le> 0 \<or> lc b a \<le> 0"
    and trans: "\<And>a b c. keyText a \<Longrightarrow> keyText b \<Longrightarrow> keyText c \<Longrightarrow>
                  lc a b \<le> 0 \<Longrightarrow> lc b c \<le> 0 \<Longrightarrow> lc a c \<le> 0"
  shows "sorted_wrt (\<lambda>a b. lc a b \<le> 0) (map sortKey (monthlyDataArray nd lc A B))"
proof -
  let ?c = "\<lambda>a b. lc (sortKey a) (sortKey b)"
  let ?P = "\<lambda>b. keyText (sortKey b)"
  have "sorted_wrt (\<lambda>a b. ?c a b \<le> 0) (arraySort ?c (map snd (monthlyAccidents nd A B)))"
  proof (rule sorted_arraySort [where P = ?P])
    show "\<And>a b. ?P a \<Longrightarrow> ?P b \<Longrightarrow> ?c a b \<le> 0 \<or> ?c b a \<le> 0"
      using total by blast
    show "\<And>a b d. ?P a \<Longrightarrow> ?P b \<Longrightarrow> ?P d \<Longrightarrow> ?c a b \<le> 0 \<Longrightarrow> ?c b d \<le> 0 \<Longrightarrow> ?c a d \<le> 0"
      using trans by blast
    show "list_all ?P (map snd (monthlyAccidents nd A B))"
      by (rule bucket_keyText)
  qed
  then show ?thesis
    by (simp add: monthlyDataArray_def objectEntries_monthly sorted_wrt_map)
qed

lemma sortKeys_keyText: "list_all keyText (map sortKey (monthlyDataArray nd lc A B))"
  using bucket_keyText [of nd A B]
  by (simp add: monthlyDataArray_def objectEntries_monthly list_all_iff set_arraySort)

text \<open>
  Claim C2 as stated, refuted: on a host whose collation ignores the hyphen, the rows dated
  \<^verbatim>\<open>0202-12-01\<close> and \<^verbatim>\<open>2021-01-01\<close> give the keys \<^verbatim>\<open>202-12\<close> and \<^verbatim>\<open>2021-01\<close>, and the
  sort puts \<^verbatim>\<open>2021-01\<close> first, which is above \<^verbatim>\<open>202-12\<close> in the lexicographic order.
\<close>

theorem monthly_not_lexicographic_counterexample:
  "map sortKey (monthlyDataArray isoDate hyphenBlindCompare
       [incident ''0202-12-01'' ''Minor''] [incident ''2021-01-01'' ''Minor''])
     = [''2021-01'', ''202-12'']
   \<and> hyphenBlindCompare ''2021-01'' ''202-12'' \<le> 0
   \<and> \<not> sortKey (monthlyDataArray isoDate hyphenBlindCompare
           [incident ''0202-12-01'' ''Minor''] [incident ''2021-01-01'' ''Minor''] ! 0)
         < sortKey (monthlyDataArray isoDate hyphenBlindCompare
           [incident ''0202-12-01'' ''Minor''] [incident ''2021-01-01'' ''Minor''] ! Suc 0)
   \<and> \<not> sorted_wrt (<) (map sortKey (monthlyDataArray isoDate hyphenBlindCompare
           [incident ''0202-12-01'' ''Minor''] [incident ''2021-01-01'' ''Minor'']))"
proof -
  have m: "monthlyDataArray isoDate hyphenBlindCompare
       [incident ''0202-12-01'' ''Minor''] [incident ''2021-01-01'' ''Minor'']
     = [\<lparr> date = ''Jan 2021'', axisDate = ''01-2021'', count = 1, sortKey = ''2021-01'' \<rparr>,
        \<lparr> date = ''Dec 202'', axisDate = ''12-202'', count = 1, sortKey = ''202-12'' \<rparr>]"
    by (simp add: date_eval monthly_eval hyphenBlindCompare_def)
  have c: "hyphenBlindCompare ''2021-01'' ''202-12'' \<le> 0"
    by (simp add: hyphenBlindCompare_def codeUnitCompare_def)
  show ?thesis unfolding m using c by simp
qed

text \<open>
  Claim C2, amended. For a host collation that is consistent on the keys (total and
  transitive on text of digits and \<open>-\<close>), the buckets are in ascending order of
  \<open>sortKey\<close> under that collation: every earlier key compares at most equal to every
  later one, in particular to its successor; and no two buckets share a \<open>sortKey\<close>.
  On a host whose collation orders such text as the code units are ordered, the buckets
  are strictly ascending in the lexicographic order of strings.
\<close>

theorem monthly_sorted_by_collation:
  assumes "\<forall>a b. keyText a \<longrightarrow> keyText b \<longrightarrow> localeCompare a b \<le> 0 \<or> localeCompare b a \<le> 0"
    and "\<forall>a b c. keyText a \<longrightarrow> keyText b \<longrightarrow> keyText c \<longrightarrow>
           localeCompare a b \<le> 0 \<longrightarrow> localeCompare b c \<le> 0 \<longrightarrow> localeCompare a c \<le> 0"
  shows "sorted_wrt (\<lambda>a b. localeCompare a b \<le> 0)
           (map sortKey (monthlyDataArray newDate localeCompare adasData adsData))
       \<and> (\<forall>i. Suc i < length (monthlyDataArray newDate localeCompare adasData adsData) \<longrightarrow>
            localeCompare (sortKey (monthlyDataArray newDate localeCompare adasData adsData ! i))
              (sortKey (monthlyDataArray newDate localeCompare adasData adsData ! Suc i)) \<le> 0)
       \<and> distinct (map sortKey (monthlyDataArray newDate localeCompare adasData adsData))
       \<and> ((\<forall>a b. keyText a \<longrightarrow> keyText b \<longrightarrow> (localeCompare a b \<le> 0) = (a \<le> b)) \<longrightarrow>
            sorted_wrt (<) (map sortKey (monthlyDataArray newDate localeCompare adasData adsData))
            \<and> (\<forall>i. Suc i < length (monthlyDataArray newDate localeCompare adasData adsData) \<longrightarrow>
                 sortKey (monthlyDataArray newDate localeCompare adasData adsData ! i)
                   < sortKey (monthlyDataArray newDate localeCompare adasData adsData ! Suc i)))"
proof -
  let ?arr = "monthlyDataArray newDate localeCompare adasData adsData"
  let ?ks = "map sortKey ?arr"
  have s: "sorted_wrt (\<lambda>a b. localeCompare a b \<le> 0) ?ks"
    using assms by (intro sortKeys_sorted) blast+
  have d: "distinct ?ks" by (rule sortKeys_distinct)
  have kt: "list_all keyText ?ks" by (rule sortKeys_keyText)
  have adj: "\<forall>i. Suc i < length ?arr \<longrightarrow>
               localeCompare (sortKey (?arr ! i)) (sortKey (?arr ! Suc i)) \<le> 0"
  proof (intro allI impI)
    fix i assume i: "Suc i < length ?arr"
    then have "localeCompare (?ks ! i) (?ks ! Suc i) \<le> 0"
      using s by (simp add: sorted_wrt_iff_nth_less del: nth_map)
    then show "localeCompare (sortKey (?arr ! i)) (sortKey (?arr ! Suc i)) \<le> 0"
      using i by simp
  qed
  have lex: "(\<forall>a b. keyText a \<longrightarrow> keyText b \<longrightarrow> (localeCompare a b \<le> 0) = (a \<le> b)) \<longrightarrow>
            sorted_wrt (<) ?ks
            \<and> (\<forall>i. Suc i < length ?arr \<longrightarrow> sortKey (?arr ! i) < sortKey (?arr ! Suc i))"
  proof
    assume agree: "\<forall>a b. keyText a \<longrightarrow> keyText b \<longrightarrow> (localeCompare a b \<le> 0) = (a \<le> b)"
    have "sorted_wrt (\<le>) ?ks"
    proof (rule sorted_wrt_mono_rel [OF _ s])
      fix a b
      assume "a \<in> set ?ks" "b \<in> set ?ks" "localeCompare a b \<le> 0"
      then show "a \<le> b" using agree kt by (auto simp add: list_all_iff)
    qed
    then have strict: "sorted_wrt (<) ?ks"
      using d by (simp add: strict_sorted_iff)
    have "\<forall>i. Suc i < length ?arr \<longrightarrow> sortKey (?arr ! i) < sortKey (?arr ! Suc i)"
    proof (intro allI impI)
      fix i assume i: "Suc i < length ?arr"
      then have "?ks ! i < ?ks ! Suc i"
        using strict by (simp add: sorted_wrt_iff_nth_less del: nth_map)
      then show "sortKey (?arr ! i) < sortKey (?arr ! Suc i)" using i by simp
    qed
    with strict show "sorted_wrt (<) ?ks
            \<and> (\<forall>i. Suc i < length ?arr \<longrightarrow> sortKey (?arr ! i) < sortKey (?arr ! Suc i))"
      by blast
  qed
  from s adj d lex show ?thesis by blast
qed

theorem monthly_sorted_by_collation_witness:
  "map sortKey (monthlyDataArray isoDate codeUnitCompare
       [incident ''2021-05-03'' ''Minor'', incident ''0202-12-01'' ''Minor'', incident ''2020-12-31'' ''Unknown'']
       [incident ''2021-04-09'' ''Minor'', incident ''2021-05-01'' ''Serious''])
     = [''202-12'', ''2020-12'', ''2021-04'', ''2021-05'']
   \<and> codeUnitCompare ''202-12'' ''2020-12'' \<le> 0
   \<and> sortKey (monthlyDataArray isoDate codeUnitCompare
       [incident ''2021-05-03'' ''Minor'', incident ''0202-12-01'' ''Minor'', incident ''2020-12-31'' ''Unknown'']
       [incident ''2021-04-09'' ''Minor'', incident ''2021-05-01'' ''Serious''] ! 0)
     < sortKey (monthlyDataArray isoDate codeUnitCompare
       [incident ''2021-05-03'' ''Minor'', incident ''0202-12-01'' ''Minor'', incident ''2020-12-31'' ''Unknown'']
       [incident ''2021-04-09'' ''Minor'', incident ''2021-05-01'' ''Serious''] ! Suc 0)
   \<and> sorted_wrt (<) (map sortKey (monthlyDataArray isoDate codeUnitCompare
       [incident ''2021-05-03'' ''Minor'', incident ''0202-12-01'' ''Minor'', incident ''2020-12-31'' ''Unknown'']
       [incident ''2021-04-09'' ''Minor'', incident ''2021-05-01'' ''Serious'']))"
proof -
  have total: "\<forall>a b. keyText a \<longrightarrow> keyText b \<longrightarrow> codeUnitCompare a b \<le> 0 \<or> codeUnitCompare b a \<le> 0"
    unfolding codeUnitCompare_le by auto
  have trans: "\<forall>a b c. keyText a \<longrightarrow> keyText b \<longrightarrow> keyText c \<longrightarrow>
           codeUnitCompare a b \<le> 0 \<longrightarrow> codeUnitCompare b c \<le> 0 \<longrightarrow> codeUnitCompare a c \<le> 0"
    unfolding codeUnitCompare_le by auto
  have agree: "\<forall>a b. keyText a \<longrightarrow> keyText b \<longrightarrow> (codeUnitCompare a b \<le> 0) = (a \<le> b)"
    unfolding codeUnitCompare_le by simp
  let ?arr = "monthlyDataArray isoDate codeUnitCompare
       [incident ''2021-05-03'' ''Minor'', incident ''0202-12-01'' ''Minor'', incident ''2020-12-31'' ''Unknown'']
       [incident ''2021-04-09'' ''Minor'', incident ''2021-05-01'' ''Serious'']"
  have m: "map sortKey ?arr = [''202-12'', ''2020-12'', ''2021-04'', ''2021-05'']"
    by (simp add: date_eval monthly_eval)
  have c: "codeUnitCompare ''202-12'' ''2020-12'' \<le> 0"
    by (simp add: codeUnitCompare_def)
  have len: "Suc 0 < length ?arr"
    using arg_cong [OF m, of length] by simp
  have lex: "sorted_wrt (<) (map sortKey ?arr)
             \<and> (\<forall>i. Suc i < length ?arr \<longrightarrow> sortKey (?arr ! i) < sortKey (?arr ! Suc i))"
    using monthly_sorted_by_collation [OF total trans, of isoDate
       "[incident ''2021-05-03'' ''Minor'', incident ''0202-12-01'' ''Minor'', incident ''2020-12-31'' ''Unknown'']"
       "[incident ''2021-04-09'' ''Minor'', incident ''2021-05-01'' ''Serious'']"] agree
    by blast
  then have lt: "sortKey (?arr ! 0) < sortKey (?arr ! Suc 0)"
    using len by blast
  from m c lt lex show ?thesis by blast
qed

text \<open>
  Claim C7. For a month in which each feed has a row with a valid date, exactly one bucket
  carries that month's key, and its count is the number of that month's rows of the first
  feed plus that of the second; the keys of the buckets are distinct, and they are the
  keys of the rows of both feeds together.
\<close>

theorem one_bucket_per_month_of_both_feeds:
  assumes "\<exists>r \<in> set adasData. rowMonth newDate r = Some (y, m)"
    and "\<exists>r \<in> set adsData. rowMonth newDate r = Some (y, m)"
  shows "map count (filter (\<lambda>b. sortKey b = monthKey y m) (monthlyDataArray newDate localeCompare adasData adsData))
           = [length (filter (\<lambda>r. rowMonth newDate r = Some (y, m)) adasData)
              + length (filter (\<lambda>r. rowMonth newDate r = Some (y, m)) adsData)]
         \<and> distinct (map sortKey (monthlyDataArray newDate localeCompare adasData adsData))
         \<and> set (map sortKey (monthlyDataArray newDate localeCompare adasData adsData))
             = {k. \<exists>r \<in> set (adasData @ adsData). rowKey newDate r = Some k}"
proof -
  let ?arr = "monthlyDataArray newDate localeCompare adasData adsData"
  have keys: "set (map sortKey ?arr) = {k. \<exists>r \<in> set (adasData @ adsData). rowKey newDate r = Some k}"
  proof -
    have "set (map sortKey ?arr) = set (map sortKey (map snd (monthlyAccidents newDate adasData adsData)))"
      by (simp add: monthlyDataArray_def objectEntries_monthly image_image set_arraySort)
    then show ?thesis
      unfolding keyed_keys [OF monthlyAccidents_keyed] monthlyAccidents_keys .
  qed
  from assms(1) have "monthKey y m \<in> set (map sortKey ?arr)"
    unfolding keys by (auto simp add: rowKey_eq_month)
  then obtain b where b: "b \<in> set ?arr" "sortKey b = monthKey y m" by auto
  have "filter (\<lambda>c. sortKey c = sortKey b) ?arr = [b]"
    using filter_unique [OF sortKeys_distinct b(1)] .
  then have "map count (filter (\<lambda>c. sortKey c = monthKey y m) ?arr) = [count b]"
    using b(2) by simp
  moreover have "count b = length (filter (\<lambda>r. rowMonth newDate r = Some (y, m)) (adasData @ adsData))"
    using bucket_count [OF b(1)] b(2) by (simp add: rowKey_eq_month)
  ultimately show ?thesis
    using keys sortKeys_distinct [of newDate localeCompare adasData adsData] by simp
qed

theorem one_bucket_per_month_of_both_feeds_witness:
  "(\<exists>r \<in> set [incident ''2021-05-03'' ''Minor'', incident ''2021-05-20'' ''Minor'', incident ''2020-12-31'' ''Unknown''].
      rowMonth isoDate r = Some (2021, 4))
   \<and> (\<exists>r \<in> set [incident ''2021-04-09'' ''Minor'', incident ''2021-05-01'' ''Serious''].
      rowMonth isoDate r = Some (2021, 4))
   \<and> monthKey 2021 4 = ''2021-05''
   \<and> map count (filter (\<lambda>b. sortKey b = ''2021-05'') (monthlyDataArray isoDate codeUnitCompare
        [incident ''2021-05-03'' ''Minor'', incident ''2021-05-20'' ''Minor'', incident ''2020-12-31'' ''Unknown'']
        [incident ''2021-04-09'' ''Minor'', incident ''2021-05-01'' ''Serious''])) = [2 + 1]"
proof -
  have h1: "\<exists>r \<in> set [incident ''2021-05-03'' ''Minor'', incident ''2021-05-20'' ''Minor'', incident ''2020-12-31'' ''Unknown''].
      rowMonth isoDate r = Some (2021, 4)"
    by (simp add: date_eval monthly_eval)
  have h2: "\<exists>r \<in> set [incident ''2021-04-09'' ''Minor'', incident ''2021-05-01'' ''Serious''].
      rowMonth isoDate r = Some (2021, 4)"
    by (simp add: date_eval monthly_eval)
  have k: "monthKey 2021 4 = ''2021-05''"
    by (simp add: date_eval)
  show ?thesis
    using h1 h2 k one_bucket_per_month_of_both_feeds [OF h1 h2, of codeUnitCompare]
    by (simp add: date_eval monthly_eval)
qed

section \<open>The severity counts\<close>

lemma set_objectEntries: "set (objectEntries obj) = set obj"
  by (auto simp add: objectEntries_def)

lemma sum_list_partition:
  "sum_list (map f (filter P xs)) + sum_list (map f (filter (\<lambda>x. \<not> P x) xs))
     = (sum_list (map f xs) :: 'a :: comm_monoid_add)"
  by (induction xs) (simp_all add: ac_simps)

lemma sum_objectEntries:
  "sum_list (map f (objectEntries obj)) = (sum_list (map f obj) :: 'a :: comm_monoid_add)"
  by (simp add: objectEntries_def sum_list_sort_key sum_list_partition)

lemma categoryStep_skip: "\<not> countedSeverity r \<Longrightarrow> categoryStep acc r = acc"
  by (auto simp add: countedSeverity_def categoryStep_def split: option.splits)

lemma categoryStep_counted:
  "countedSeverity r \<Longrightarrow> severityOf r = Some k \<Longrightarrow>
   categoryStep acc r = setProp acc k (jsPlus (jsOr (getProp acc k) (Num 0)) (Num 1))"
  by (auto simp add: countedSeverity_def categoryStep_def severityOf_def split: option.splits)

lemma counted_has_severity:
  "countedSeverity r \<Longrightarrow> \<exists>k. severityOf r = Some k \<and> k \<noteq> [] \<and> k \<noteq> ''Unknown''"
  by (auto simp add: countedSeverity_def severityOf_def split: option.splits)

lemma foldl_categoryStep_filter:
  "foldl categoryStep acc (filter countedSeverity feed) = foldl categoryStep acc feed"
  by (induction feed arbitrary: acc) (simp_all add: categoryStep_skip)

lemma foldl_categoryStep_remove:
  "\<not> countedSeverity r \<Longrightarrow>
   foldl categoryStep acc (xs @ r # ys) = foldl categoryStep acc (xs @ ys)"
  by (simp add: categoryStep_skip)

lemma keys_categoryStep:
  "set (map fst (categoryStep acc r)) \<subseteq>
     set (map fst acc) \<union> {k. countedSeverity r \<and> severityOf r = Some k}"
proof (cases "countedSeverity r")
  case False
  then show ?thesis by (simp add: categoryStep_skip)
next
  case True
  then obtain k where k: "severityOf r = Some k" using counted_has_severity by blast
  show ?thesis
    using True k
    by (auto simp add: categoryStep_counted [OF True k] setProp_def update_keys simp del: set_map)
qed

lemma keys_categoryObject:
  "set (map fst (foldl categoryStep acc feed)) \<subseteq>
     set (map fst acc) \<union> {k. \<exists>r \<in> set feed. countedSeverity r \<and> severityOf r = Some k}"
proof (induction feed arbitrary: acc)
  case Nil
  then show ?case by simp
next
  case (Cons r feed)
  show ?case
    using Cons.IH [of "categoryStep acc r"] keys_categoryStep [of acc r]
    by (simp del: set_map) blast
qed

lemma names_injuriesData:
  "set (map name (injuriesData feed)) = set (map fst (categoryObject feed))"
proof -
  have "map name (injuriesData feed) = map fst (objectEntries (categoryObject feed))"
    by (simp add: injuriesData_def categoryObject_def case_prod_unfold comp_def)
  then show ?thesis by (simp add: set_objectEntries)
qed

lemma name_is_counted_severity:
  assumes "k \<in> set (map name (injuriesData feed))"
  shows "\<exists>r \<in> set feed. countedSeverity r \<and> severityOf r = Some k"
  using assms keys_categoryObject [of "[]" feed]
  unfolding names_injuriesData categoryObject_def by auto

lemma getProp_own: "\<not> inheritedName k \<Longrightarrow> getProp acc k = map_of acc k"
proof -
  assume "\<not> inheritedName k"
  then have "map_of objectPrototype k = None"
    by (simp add: inheritedName_def map_of_eq_None_iff)
  then show ?thesis by (simp add: getProp_def split: option.splits)
qed

lemma proto_inherited: "inheritedName ''__proto__''"
  by (simp add: inheritedName_def objectPrototype_def)

lemma setProp_own: "\<not> inheritedName k \<Longrightarrow> setProp acc k v = AList.update k v acc"
  using proto_inherited by (auto simp add: setProp_def)

lemma counts_lookup:
  "list_all (\<lambda>p. isCount (snd p)) acc \<Longrightarrow>
   jsOr (map_of acc k) (Num 0) = Num (numOf (jsOr (map_of acc k) (Num 0)))
   \<and> 0 \<le> numOf (jsOr (map_of acc k) (Num 0))"
proof (cases "map_of acc k")
  case None
  then show ?thesis by (simp add: jsOr_def numOf_def)
next
  case (Some v)
  assume "list_all (\<lambda>p. isCount (snd p)) acc"
  moreover have "(k, v) \<in> set acc" using Some by (rule map_of_SomeD)
  ultimately have "isCount v" by (auto simp add: list_all_iff)
  then show ?thesis
    using Some by (cases v) (simp_all add: isCount_def jsOr_def truthy_def numOf_def)
qed

lemma categoryStep_clean:
  assumes "countedSeverity r" "severityOf r = Some k" "\<not> inheritedName k"
    and "list_all (\<lambda>p. isCount (snd p)) acc"
  shows "categoryStep acc r =
           AList.update k (Num (numOf (jsOr (map_of acc k) (Num 0)) + 1)) acc"
proof -
  have num: "\<And>a b. jsPlus (Num a) (Num b) = Num (a + b)"
    by (simp add: jsPlus_def)
  obtain c where c: "jsOr (map_of acc k) (Num 0) = Num c"
    using counts_lookup [OF assms(4), of k] by blast
  have "jsPlus (jsOr (map_of acc k) (Num 0)) (Num 1) = Num (numOf (jsOr (map_of acc k) (Num 0)) + 1)"
    unfolding c num by (simp add: numOf_def)
  then show ?thesis
    using assms by (simp add: categoryStep_counted getProp_own setProp_own)
qed

lemma cleanRow_cases:
  assumes "case severityOf r of None \<Rightarrow> True | Some k \<Rightarrow> \<not> inheritedName k"
  obtains "\<not> countedSeverity r"
  | k where "countedSeverity r" "severityOf r = Some k" "\<not> inheritedName k"
  using assms counted_has_severity [of r] by (cases "countedSeverity r") auto

lemma counts_step:
  assumes "case severityOf r of None \<Rightarrow> True | Some k \<Rightarrow> \<not> inheritedName k"
    and inv: "list_all (\<lambda>p. isCount (snd p)) acc"
  shows "list_all (\<lambda>p. isCount (snd p)) (categoryStep acc r)"
using assms(1) proof (cases rule: cleanRow_cases)
  case 1
  then show ?thesis using inv by (simp add: categoryStep_skip)
next
  case (2 k)
  have "0 \<le> numOf (jsOr (map_of acc k) (Num 0))"
    using counts_lookup [OF inv, of k] by simp
  then have "isCount (Num (numOf (jsOr (map_of acc k) (Num 0)) + 1))"
    by (simp add: isCount_def)
  then show ?thesis
    using inv set_update_subset [of k "Num (numOf (jsOr (map_of acc k) (Num 0)) + 1)" acc]
    unfolding categoryStep_clean [OF 2 inv] list_all_iff by auto
qed

lemma countIn_lookup:
  assumes "list_all (\<lambda>p. isCount (snd p)) acc"
  shows "(case map_of acc k of None \<Rightarrow> 0 | Some w \<Rightarrow> numOf w) = countIn acc k"
proof (cases "map_of acc k")
  case None
  then show ?thesis by (simp add: countIn_def jsOr_def numOf_def)
next
  case (Some v)
  have "(k, v) \<in> set acc" using Some by (rule map_of_SomeD)
  with assms have "isCount v" by (auto simp add: list_all_iff)
  then show ?thesis
    using Some by (cases v) (simp_all add: isCount_def countIn_def jsOr_def truthy_def)
qed

lemma numOf_sum_step:
  assumes "case severityOf r of None \<Rightarrow> True | Some k \<Rightarrow> \<not> inheritedName k"
    and inv: "list_all (\<lambda>p. isCount (snd p)) acc"
  shows "sum_list (map (\<lambda>p. numOf (snd p)) (categoryStep acc r)) =
           sum_list (map (\<lambda>p. numOf (snd p)) acc) + (if countedSeverity r then 1 else 0)"
using assms(1) proof (cases rule: cleanRow_cases)
  case 1
  then show ?thesis by (simp add: categoryStep_skip)
next
  case (2 k)
  let ?v = "Num (numOf (jsOr (map_of acc k) (Num 0)) + 1)"
  have "sum_list (map (\<lambda>p. numOf (snd p)) (AList.update k ?v acc)) + countIn acc k
          = sum_list (map (\<lambda>p. numOf (snd p)) acc) + numOf ?v"
    using sum_update [of numOf k ?v acc] unfolding countIn_lookup [OF inv] .
  then show ?thesis
    using 2(1) unfolding categoryStep_clean [OF 2 inv]
    by (simp add: countIn_def numOf_def)
qed

lemma countIn_step:
  assumes "case severityOf r of None \<Rightarrow> True | Some k \<Rightarrow> \<not> inheritedName k"
    and inv: "list_all (\<lambda>p. isCount (snd p)) acc"
  shows "countIn (categoryStep acc r) j =
           countIn acc j + (if countedSeverity r \<and> severityOf r = Some j then 1 else 0)"
using assms(1) proof (cases rule: cleanRow_cases)
  case 1
  then show ?thesis by (simp add: categoryStep_skip)
next
  case (2 k)
  show ?thesis
    using 2(1,2) unfolding categoryStep_clean [OF 2 inv]
    by (simp add: countIn_def update_conv' jsOr_def truthy_def numOf_def)
qed

lemma clean_foldl:
  assumes "cleanFeed feed" and "list_all (\<lambda>p. isCount (snd p)) acc"
  shows "list_all (\<lambda>p. isCount (snd p)) (foldl categoryStep acc feed)
       \<and> sum_list (map (\<lambda>p. numOf (snd p)) (foldl categoryStep acc feed)) =
           sum_list (map (\<lambda>p. numOf (snd p)) acc) + int (length (filter countedSeverity feed))
       \<and> (\<forall>j. countIn (foldl categoryStep acc feed) j =
           countIn acc j + int (length (filter (\<lambda>r. countedSeverity r \<and> severityOf r = Some j) feed)))"
  using assms
proof (induction feed arbitrary: acc)
  case Nil
  then show ?case by simp
next
  case (Cons r feed)
  have row: "case severityOf r of None \<Rightarrow> True | Some k \<Rightarrow> \<not> inheritedName k"
    and rest: "cleanFeed feed"
    using Cons.prems(1) by (simp_all add: cleanFeed_def)
  note inv' = counts_step [OF row Cons.prems(2)]
  show ?case
    using Cons.IH [OF rest inv'] numOf_sum_step [OF row Cons.prems(2)]
      countIn_step [OF row Cons.prems(2)]
    by simp
qed

lemma total_of_counts:
  "list_all (\<lambda>c. isCount (value' c)) items \<Longrightarrow>
   foldl (\<lambda>sum item. jsPlus sum (value' item)) (Num a) items
     = Num (a + sum_list (map (\<lambda>c. numOf (value' c)) items))"
proof (induction items arbitrary: a)
  case Nil
  then show ?case by simp
next
  case (Cons c items)
  then obtain n where n: "value' c = Num n"
    by (cases "value' c") (simp_all add: isCount_def)
  show ?case
    using Cons by (simp add: n jsPlus_def numOf_def add.assoc)
qed

lemmas category_eval = injuriesData_def objectEntries_def isArrayIndex_def categoryStep_def
  setProp_def getProp_def jsOr_def jsPlus_def truthy_def toStr_def objectPrototype_def
  total_def countedSeverity_def severityOf_def incident_def isDigit_def

lemma clean_injuriesData:
  assumes "cleanFeed feed"
  shows "list_all (\<lambda>c. isCount (value' c)) (injuriesData feed)"
    and "total (injuriesData feed) = Num (sum_list (map (\<lambda>c. numOf (value' c)) (injuriesData feed)))"
    and "total (injuriesData feed) = Num (int (length (filter countedSeverity feed)))"
proof -
  let ?obj = "foldl categoryStep [] feed"
  have f: "list_all (\<lambda>p. isCount (snd p)) ?obj"
    and s: "sum_list (map (\<lambda>p. numOf (snd p)) ?obj) = int (length (filter countedSeverity feed))"
    using clean_foldl [OF assms, of "[]"] by simp_all
  show a: "list_all (\<lambda>c. isCount (value' c)) (injuriesData feed)"
    using f by (auto simp add: injuriesData_def list_all_iff set_objectEntries)
  show b: "total (injuriesData feed) = Num (sum_list (map (\<lambda>c. numOf (value' c)) (injuriesData feed)))"
    using total_of_counts [OF a, of 0] by (simp add: total_def)
  have "sum_list (map (\<lambda>c. numOf (value' c)) (injuriesData feed))
          = sum_list (map (\<lambda>p. numOf (snd p)) (objectEntries ?obj))"
    by (simp add: injuriesData_def comp_def case_prod_unfold)
  also have "\<dots> = int (length (filter countedSeverity feed))"
    unfolding sum_objectEntries s ..
  finally show "total (injuriesData feed) = Num (int (length (filter countedSeverity feed)))"
    using b by simp
qed

lemma injuriesData_ignores_date:
  "injuriesData (map (\<lambda>r. r(''Incident Date'' := d r)) feed) = injuriesData feed"
proof -
  have step: "\<And>acc r x. categoryStep acc (r(''Incident Date'' := x)) = categoryStep acc r"
    by (simp add: categoryStep_def)
  have "\<And>acc. foldl categoryStep acc (map (\<lambda>r. r(''Incident Date'' := d r)) feed)
          = foldl categoryStep acc feed"
    by (induction feed) (simp_all add: step)
  then show ?thesis by (simp add: injuriesData_def)
qed

lemma clean_count_per_name:
  assumes "cleanFeed feed" "r \<in> set feed" "countedSeverity r" "severityOf r = Some k"
  shows "\<exists>c \<in> set (injuriesData feed). name c = k \<and>
           value' c = Num (int (length (filter (\<lambda>x. severityOf x = Some k) feed)))"
proof -
  let ?obj = "foldl categoryStep [] feed"
  have inv: "list_all (\<lambda>p. isCount (snd p)) ?obj"
    and cnt: "countIn ?obj k = int (length (filter (\<lambda>x. countedSeverity x \<and> severityOf x = Some k) feed))"
    using clean_foldl [OF assms(1), of "[]"] by (simp_all add: countIn_def jsOr_def numOf_def)
  have same: "filter (\<lambda>x. countedSeverity x \<and> severityOf x = Some k) feed
                = filter (\<lambda>x. severityOf x = Some k) feed"
    using assms(3,4) by (auto simp add: countedSeverity_def severityOf_def intro!: filter_cong)
  have "r \<in> set (filter (\<lambda>x. severityOf x = Some k) feed)"
    using assms(2,4) by simp
  then have pos: "0 < length (filter (\<lambda>x. severityOf x = Some k) feed)"
    by (metis length_pos_if_in_set)
  have "countIn ?obj k \<noteq> 0" using cnt same pos by simp
  then obtain v where v: "map_of ?obj k = Some v"
    by (cases "map_of ?obj k") (simp_all add: countIn_def jsOr_def numOf_def)
  then have mem: "(k, v) \<in> set ?obj" by (rule map_of_SomeD)
  with inv have "isCount v" by (auto simp add: list_all_iff)
  then have "v = Num (countIn ?obj k)"
    using v by (cases v) (simp_all add: isCount_def countIn_def jsOr_def truthy_def numOf_def)
  then have "\<lparr> name = k, value' = Num (int (length (filter (\<lambda>x. severityOf x = Some k) feed))) \<rparr>
               \<in> set (injuriesData feed)"
    using mem cnt same by (force simp add: injuriesData_def set_objectEntries image_iff)
  then show ?thesis by force
qed

text \<open>
  Claim C3, at a feed of one row whose severity is \<^verbatim>\<open>constructor\<close>. The claim asks for a
  total equal to the number of rows with a present, non-empty severity other than
  \<^verbatim>\<open>Unknown\<close>, here 1. The reducer reads the inherited \<^verbatim>\<open>Object\<close> function where it
  expects a count, so the entry's value and the total are text.
\<close>

theorem total_of_inherited_name_is_text:
  "length (filter countedSeverity [incident ''2021-05-03'' ''constructor'']) = 1
   \<and> injuriesData [incident ''2021-05-03'' ''constructor'']
       = [\<lparr> name = ''constructor'', value' = Str ''function Object() { [native code] }1'' \<rparr>]
   \<and> total (injuriesData [incident ''2021-05-03'' ''constructor''])
       = Str ''0function Object() { [native code] }1''"
  by (simp add: category_eval numberToString_def digitsOf.simps digitChar_def)

text \<open>
  Claim C5, at a feed of one row with an empty date and the severity \<^verbatim>\<open>__proto__\<close>. The
  claim asks that the row, whose severity is present, non-empty and not \<^verbatim>\<open>Unknown\<close>, be
  included in the severity counts. The assignment reaches the inherited accessor, which
  ignores it: the row is in no entry and the total is 0.
\<close>

theorem undated_row_named_proto_is_dropped:
  "\<not> validDate isoDate (incident '''' ''__proto__'')
   \<and> countedSeverity (incident '''' ''__proto__'')
   \<and> injuriesData [incident '''' ''__proto__''] = []
   \<and> total (injuriesData [incident '''' ''__proto__'']) = Num 0"
  by (simp add: category_eval validDate_def isoDate_def)

text \<open>
  Claim C6. A row whose severity is missing, empty or \<^verbatim>\<open>Unknown\<close> adds nothing: the
  entries and the total of a feed are those of the feed without the row, and of the feed
  without all such rows. No entry of any feed is named \<^verbatim>\<open>Unknown\<close> or has the empty name.
\<close>

theorem excluded_severity_contributes_nothing:
  assumes "severityOf r = None \<or> severityOf r = Some [] \<or> severityOf r = Some ''Unknown''"
  shows "injuriesData (xs @ r # ys) = injuriesData (xs @ ys)
       \<and> total (injuriesData (xs @ r # ys)) = total (injuriesData (xs @ ys))
       \<and> injuriesData (filter countedSeverity feed) = injuriesData feed
       \<and> ''Unknown'' \<notin> set (map name (injuriesData feed))
       \<and> [] \<notin> set (map name (injuriesData feed))"
proof -
  have nc: "\<not> countedSeverity r"
    using assms by (auto simp add: countedSeverity_def severityOf_def)
  have a: "injuriesData (xs @ r # ys) = injuriesData (xs @ ys)"
    unfolding injuriesData_def foldl_categoryStep_remove [OF nc] ..
  have b: "injuriesData (filter countedSeverity feed) = injuriesData feed"
    unfolding injuriesData_def foldl_categoryStep_filter ..
  have c: "''Unknown'' \<notin> set (map name (injuriesData feed))"
    using name_is_counted_severity [of "''Unknown''" feed]
    by (auto simp add: countedSeverity_def severityOf_def)
  have d: "[] \<notin> set (map name (injuriesData feed))"
    using name_is_counted_severity [of "[]" feed]
    by (auto simp add: countedSeverity_def severityOf_def)
  from a b c d show ?thesis by simp
qed

theorem excluded_severity_contributes_nothing_witness:
  "severityOf (incident ''2021-05-03'' ''Unknown'') = Some ''Unknown''
   \<and> injuriesData ([incident ''2021-05-01'' ''Minor''] @ incident ''2021-05-03'' ''Unknown''
        # [incident ''2021-05-04'' '''', incident ''2021-05-05'' ''Minor''])
     = [\<lparr> name = ''Minor'', value' = Num 2 \<rparr>]
   \<and> injuriesData ([incident ''2021-05-01'' ''Minor'']
        @ [incident ''2021-05-04'' '''', incident ''2021-05-05'' ''Minor''])
     = [\<lparr> name = ''Minor'', value' = Num 2 \<rparr>]
   \<and> total (injuriesData ([incident ''2021-05-01'' ''Minor''] @ incident ''2021-05-03'' ''Unknown''
        # [incident ''2021-05-04'' '''', incident ''2021-05-05'' ''Minor''])) = Num 2"
proof -
  have h: "severityOf (incident ''2021-05-03'' ''Unknown'') = None
         \<or> severityOf (incident ''2021-05-03'' ''Unknown'') = Some []
         \<or> severityOf (incident ''2021-05-03'' ''Unknown'') = Some ''Unknown''"
    by (simp add: severityOf_def incident_def)
  show ?thesis
    using excluded_severity_contributes_nothing [OF h, of "[incident ''2021-05-01'' ''Minor'']"
        "[incident ''2021-05-04'' '''', incident ''2021-05-05'' ''Minor'']" "[]"]
    by (simp add: category_eval)
qed

section \<open>How often the labels are computed\<close>

lemma fst_counting_step:
  "fst (monthlyStepCounting nd st r) = monthlyStep nd (fst st) r"
  by (simp add: monthlyStepCounting_def monthlyStep_def Let_def split: jsdate.splits)

lemma snd_counting_step:
  "snd (monthlyStepCounting nd st r) = snd st + (if validDate nd r then 1 else 0)"
  by (simp add: monthlyStepCounting_def validDate_def Let_def split: jsdate.splits)

lemma counting_foldl:
  "fst (foldl (monthlyStepCounting nd) st rows) = foldl (monthlyStep nd) (fst st) rows
   \<and> snd (foldl (monthlyStepCounting nd) st rows) = snd st + length (filter (validDate nd) rows)"
  by (induction rows arbitrary: st) (simp_all add: fst_counting_step snd_counting_step)

lemma labelled_step: "labelled acc \<Longrightarrow> labelled (monthlyStep nd acc r)"
proof (cases "rowMonth nd r")
  case None
  assume "labelled acc"
  with None show ?thesis by (simp add: monthlyStep_invalid)
next
  case (Some ym)
  assume l: "labelled acc"
  obtain y m where ym: "ym = (y, m)" by (cases ym)
  let ?b = "\<lparr> date = formatDate (LocalDate y m), axisDate = formatAxisDate (LocalDate y m),
         count = countOf acc (monthKey y m) + 1, sortKey = monthKey y m \<rparr>"
  have "set (AList.update (monthKey y m) ?b acc) \<subseteq> insert (monthKey y m, ?b) (set acc)"
    by (rule set_update_subset)
  then show ?thesis
    using Some l unfolding ym labelled_def list_all_iff
    by (fastforce simp add: monthlyStep_valid)
qed

lemma labelled_foldl: "labelled acc \<Longrightarrow> labelled (foldl (monthlyStep nd) acc rows)"
  by (induction rows arbitrary: acc) (simp_all add: labelled_step)

lemma monthlyAccidents_labelled: "labelled (monthlyAccidents nd A B)"
  unfolding monthlyAccidents_def by (rule labelled_foldl) (simp add: labelled_def)

lemma bucket_labels:
  assumes "b \<in> set (monthlyDataArray nd lc A B)" and "rowKey nd r = Some (sortKey b)"
  shows "date b = formatDate (nd (r ''Incident Date''))
       \<and> axisDate b = formatAxisDate (nd (r ''Incident Date''))"
proof -
  from assms(1) obtain k where kb: "(k, b) \<in> set (monthlyAccidents nd A B)"
    by (auto simp add: monthlyDataArray_def objectEntries_monthly set_arraySort)
  have sk: "sortKey b = k"
    using monthlyAccidents_keyed [of nd A B] kb by (auto simp add: keyed_def list_all_iff)
  obtain y m where ym: "k = monthKey y m" "date b = formatDate (LocalDate y m)"
      "axisDate b = formatAxisDate (LocalDate y m)"
    using monthlyAccidents_labelled [of nd A B] kb by (auto simp add: labelled_def list_all_iff)
  have "rowMonth nd r = Some (y, m)"
    using assms(2) sk ym(1) by (simp add: rowKey_eq_month)
  then have "nd (r ''Incident Date'') = LocalDate y m"
    by (simp add: rowMonth_def split: jsdate.splits)
  then show ?thesis using ym by simp
qed

text \<open>
  Claim C8 as stated, refuted: two rows of one month make one bucket, and its labels are
  computed twice, once for each row, not once on insertion.
\<close>

theorem labels_computed_for_every_row_counterexample:
  "labelComputations isoDate [incident ''2021-05-03'' ''Minor'', incident ''2021-05-20'' ''Minor''] [] = 2
   \<and> length (monthlyDataArray isoDate codeUnitCompare
        [incident ''2021-05-03'' ''Minor'', incident ''2021-05-20'' ''Minor''] []) = 1
   \<and> labelComputations isoDate [incident ''2021-05-03'' ''Minor'', incident ''2021-05-20'' ''Minor''] []
       \<noteq> length (monthlyDataArray isoDate codeUnitCompare
            [incident ''2021-05-03'' ''Minor'', incident ''2021-05-20'' ''Minor''] [])"
  by (simp add: labelComputations_def monthlyStepCounting_def date_eval monthly_eval)

text \<open>
  Claim C8, amended. The loop builds the bucket anew for every row with a valid date, so
  the labels are computed once per such row. They are a function of the month the key is
  made from: the labels of a bucket are the ones computed from any row of its key, the
  first one included.
\<close>

theorem labels_recomputed_but_equal:
  "fst (foldl (monthlyStepCounting newDate) ([], 0) (adasData @ adsData))
     = monthlyAccidents newDate adasData adsData
   \<and> labelComputations newDate adasData adsData
       = length (filter (validDate newDate) adasData) + length (filter (validDate newDate) adsData)
   \<and> (\<forall>b \<in> set (monthlyDataArray newDate localeCompare adasData adsData).
        \<forall>r \<in> set (adasData @ adsData).
          rowKey newDate r = Some (sortKey b) \<longrightarrow>
            date b = formatDate (newDate (r ''Incident Date''))
            \<and> axisDate b = formatAxisDate (newDate (r ''Incident Date'')))"
proof -
  have a: "fst (foldl (monthlyStepCounting newDate) ([], 0) (adasData @ adsData))
     = monthlyAccidents newDate adasData adsData"
    using counting_foldl [of newDate "([], 0)" "adasData @ adsData"]
    by (simp add: monthlyAccidents_def)
  have b: "labelComputations newDate adasData adsData
       = length (filter (validDate newDate) adasData) + length (filter (validDate newDate) adsData)"
    using counting_foldl [of newDate "([], 0)" "adasData @ adsData"]
    by (simp add: labelComputations_def)
  from a b bucket_labels show ?thesis by blast
qed

theorem labels_recomputed_but_equal_witness:
  "labelComputations isoDate [incident ''2021-05-03'' ''Minor'', incident ''2021-05-20'' ''Minor'']
       [incident '''' ''Minor''] = 2 + 0
   \<and> monthlyDataArray isoDate codeUnitCompare [incident ''2021-05-03'' ''Minor'', incident ''2021-05-20'' ''Minor'']
       [incident '''' ''Minor'']
      = [\<lparr> date = ''May 2021'', axisDate = ''05-2021'', count = 2, sortKey = ''2021-05'' \<rparr>]
   \<and> rowKey isoDate (incident ''2021-05-20'' ''Minor'') = Some ''2021-05''
   \<and> formatDate (isoDate (incident ''2021-05-20'' ''Minor'' ''Incident Date'')) = ''May 2021''
   \<and> formatAxisDate (isoDate (incident ''2021-05-20'' ''Minor'' ''Incident Date'')) = ''05-2021''"
  using labels_recomputed_but_equal [of isoDate
      "[incident ''2021-05-03'' ''Minor'', incident ''2021-05-20'' ''Minor'']"
      "[incident '''' ''Minor'']" codeUnitCompare]
  by (simp add: labelComputations_def monthlyStepCounting_def date_eval monthly_eval)

section \<open>The outcome of \<^verbatim>\<open>loadData\<close>\<close>

lemma tryBlock_failed:
  assumes "requestFailed (adasFetch net) \<or> requestFailed (adsFetch net)"
  shows "\<exists>message. tryBlock papaParse newDate localeCompare net = Inl message
           \<and> ((\<exists>a b. adasFetch net = Fulfilled a \<and> adsFetch net = Fulfilled b)
                \<longrightarrow> message = ''Failed to fetch CSV files'')"
proof (cases "adasFetch net")
  case ra: (Rejected m)
  show ?thesis
    by (cases "adsFetch net") (simp_all add: tryBlock_def promiseAll_def ra)
next
  case fa: (Fulfilled a)
  show ?thesis
  proof (cases "adsFetch net")
    case (Rejected n)
    then show ?thesis by (simp add: tryBlock_def promiseAll_def fa)
  next
    case (Fulfilled b)
    then have "\<not> ok a \<or> \<not> ok b"
      using assms fa by (simp add: requestFailed_def)
    then show ?thesis
      using Fulfilled fa by (auto simp add: tryBlock_def promiseAll_def)
  qed
qed

lemma loadData_error:
  "tryBlock papaParse newDate localeCompare net = Inl message \<Longrightarrow>
   loadData papaParse newDate localeCompare net s = s\<lparr> isLoading := False, error := Some message \<rparr>"
  by (simp add: loadData_def)

text \<open>
  Claim C4. When a request is rejected or its response is not \<^verbatim>\<open>ok\<close>, the body of the
  \<^verbatim>\<open>try\<close> throws before anything is computed, and \<^verbatim>\<open>loadData\<close> changes the state only by
  storing the message and ending the loading; with both responses received the message is
  \<^verbatim>\<open>Failed to fetch CSV files\<close>. A message that is not empty is what the component
  shows. From the initial state, the lists stay empty and the totals 0: nothing of the
  other feed is exposed.
\<close>

theorem failed_request_ends_in_error:
  assumes "requestFailed (adasFetch net) \<or> requestFailed (adsFetch net)"
  shows "\<exists>message.
           tryBlock papaParse newDate localeCompare net = Inl message
         \<and> loadData papaParse newDate localeCompare net s = s\<lparr> isLoading := False, error := Some message \<rparr>
         \<and> ((\<exists>a b. adasFetch net = Fulfilled a \<and> adsFetch net = Fulfilled b)
                \<longrightarrow> message = ''Failed to fetch CSV files'')
         \<and> (message \<noteq> [] \<longrightarrow> render (loadData papaParse newDate localeCompare net s) = ErrorView message)
         \<and> monthlyData (loadData papaParse newDate localeCompare net initialState) = []
         \<and> adasInjuries (loadData papaParse newDate localeCompare net initialState) = []
         \<and> adsInjuries (loadData papaParse newDate localeCompare net initialState) = []
         \<and> totalADAS (loadData papaParse newDate localeCompare net initialState) = Num 0
         \<and> totalADS (loadData papaParse newDate localeCompare net initialState) = Num 0"
proof -
  obtain message where m: "tryBlock papaParse newDate localeCompare net = Inl message"
    and st: "(\<exists>a b. adasFetch net = Fulfilled a \<and> adsFetch net = Fulfilled b)
                \<longrightarrow> message = ''Failed to fetch CSV files''"
    using tryBlock_failed [OF assms] by blast
  have l: "\<And>s. loadData papaParse newDate localeCompare net s = s\<lparr> isLoading := False, error := Some message \<rparr>"
    using m by (rule loadData_error)
  have r: "message \<noteq> [] \<longrightarrow> render (loadData papaParse newDate localeCompare net s) = ErrorView message"
    unfolding l by (simp add: render_def)
  have i: "monthlyData (loadData papaParse newDate localeCompare net initialState) = []"
      "adasInjuries (loadData papaParse newDate localeCompare net initialState) = []"
      "adsInjuries (loadData papaParse newDate localeCompare net initialState) = []"
      "totalADAS (loadData papaParse newDate localeCompare net initialState) = Num 0"
      "totalADS (loadData papaParse newDate localeCompare net initialState) = Num 0"
    unfolding l by (simp_all add: initialState_def)
  from m l st r i show ?thesis by blast
qed

theorem failed_request_ends_in_error_witness:
  "requestFailed (Fulfilled \<lparr> ok = False, bodyText = Fulfilled ''Not Found'' \<rparr>)
   \<and> tryBlock (parseTable [(''ads'', [incident ''2021-05-03'' ''Minor''])]) isoDate codeUnitCompare
        \<lparr> adasFetch = Fulfilled \<lparr> ok = False, bodyText = Fulfilled ''Not Found'' \<rparr>,
          adsFetch = Fulfilled \<lparr> ok = True, bodyText = Fulfilled ''ads'' \<rparr>,
          adsSettlesFirst = True \<rparr> = Inl ''Failed to fetch CSV files''
   \<and> render (loadData (parseTable [(''ads'', [incident ''2021-05-03'' ''Minor''])]) isoDate codeUnitCompare
        \<lparr> adasFetch = Fulfilled \<lparr> ok = False, bodyText = Fulfilled ''Not Found'' \<rparr>,
          adsFetch = Fulfilled \<lparr> ok = True, bodyText = Fulfilled ''ads'' \<rparr>,
          adsSettlesFirst = True \<rparr> initialState) = ErrorView ''Failed to fetch CSV files''
   \<and> monthlyData (loadData (parseTable [(''ads'', [incident ''2021-05-03'' ''Minor''])]) isoDate codeUnitCompare
        \<lparr> adasFetch = Fulfilled \<lparr> ok = False, bodyText = Fulfilled ''Not Found'' \<rparr>,
          adsFetch = Fulfilled \<lparr> ok = True, bodyText = Fulfilled ''ads'' \<rparr>,
          adsSettlesFirst = True \<rparr> initialState) = []"
proof -
  let ?net = "\<lparr> adasFetch = Fulfilled \<lparr> ok = False, bodyText = Fulfilled ''Not Found'' \<rparr>,
          adsFetch = Fulfilled \<lparr> ok = True, bodyText = Fulfilled ''ads'' \<rparr>,
          adsSettlesFirst = True \<rparr>"
  have h: "requestFailed (adasFetch ?net) \<or> requestFailed (adsFetch ?net)"
    by (simp add: requestFailed_def)
  show ?thesis
    using failed_request_ends_in_error [OF h,
        of "parseTable [(''ads'', [incident ''2021-05-03'' ''Minor''])]" isoDate codeUnitCompare initialState]
    by (simp add: requestFailed_def tryBlock_def promiseAll_def loadData_def render_def initialState_def)
qed

lemma tryBlock_delivered:
  assumes "deliveredText (adasFetch net) adasText" "deliveredText (adsFetch net) adsText"
  shows "tryBlock papaParse newDate localeCompare net =
           Inr \<lparr> monthlyDataArrayOf = monthlyDataArray newDate localeCompare (papaParse adasText) (papaParse adsText),
                 adasInjuriesData = injuriesData (papaParse adasText),
                 adsInjuriesData = injuriesData (papaParse adsText) \<rparr>"
proof -
  obtain a b where "adasFetch net = Fulfilled a" "ok a" "bodyText a = Fulfilled adasText"
      "adsFetch net = Fulfilled b" "ok b" "bodyText b = Fulfilled adsText"
    using assms by (auto simp add: deliveredText_def split: settled.splits)
  then show ?thesis
    by (simp add: tryBlock_def promiseAll_def Let_def)
qed

lemma loadData_delivered:
  assumes "deliveredText (adasFetch net) adasText" "deliveredText (adsFetch net) adsText"
  shows "loadData papaParse newDate localeCompare net s =
           \<lparr> monthlyData = monthlyDataArray newDate localeCompare (papaParse adasText) (papaParse adsText),
             adasInjuries = injuriesData (papaParse adasText),
             adsInjuries = injuriesData (papaParse adsText),
             totalADAS = total (injuriesData (papaParse adasText)),
             totalADS = total (injuriesData (papaParse adsText)),
             isLoading = False, error = None \<rparr>"
  by (simp add: loadData_def tryBlock_delivered [OF assms])

text \<open>
  Claim C9. With both texts delivered, the state \<^verbatim>\<open>loadData\<close> ends in is fixed by the two
  texts: it depends neither on the state it starts from nor on which request settled
  first. A second run, and a run from any other state, end in the same state, with the
  same keys and counts of the buckets and the same totals.
\<close>

theorem rerun_gives_identical_results:
  assumes "deliveredText (adasFetch net) adasText" "deliveredText (adsFetch net) adsText"
    and "deliveredText (adasFetch net') adasText" "deliveredText (adsFetch net') adsText"
  shows "loadData papaParse newDate localeCompare net' (loadData papaParse newDate localeCompare net s)
           = loadData papaParse newDate localeCompare net s
       \<and> loadData papaParse newDate localeCompare net' s' = loadData papaParse newDate localeCompare net s
       \<and> map sortKey (monthlyData (loadData papaParse newDate localeCompare net' s'))
           = map sortKey (monthlyData (loadData papaParse newDate localeCompare net s))
       \<and> map count (monthlyData (loadData papaParse newDate localeCompare net' s'))
           = map count (monthlyData (loadData papaParse newDate localeCompare net s))
       \<and> totalADAS (loadData papaParse newDate localeCompare net' s') = totalADAS (loadData papaParse newDate localeCompare net s)
       \<and> totalADS (loadData papaParse newDate localeCompare net' s') = totalADS (loadData papaParse newDate localeCompare net s)"
  by (simp add: loadData_delivered [OF assms(1,2)] loadData_delivered [OF assms(3,4)])

theorem rerun_gives_identical_results_witness:
  "deliveredText (Fulfilled \<lparr> ok = True, bodyText = Fulfilled ''adas'' \<rparr>) ''adas''
   \<and> deliveredText (Fulfilled \<lparr> ok = True, bodyText = Fulfilled ''ads'' \<rparr>) ''ads''
   \<and> loadData (parseTable [(''adas'', [incident ''2021-05-03'' ''Minor'']),
                             (''ads'', [incident ''2021-05-09'' ''Serious''])]) isoDate codeUnitCompare
        \<lparr> adasFetch = Fulfilled \<lparr> ok = True, bodyText = Fulfilled ''adas'' \<rparr>,
          adsFetch = Fulfilled \<lparr> ok = True, bodyText = Fulfilled ''ads'' \<rparr>,
          adsSettlesFirst = False \<rparr>
        (loadData (parseTable [(''adas'', [incident ''2021-05-03'' ''Minor'']),
                               (''ads'', [incident ''2021-05-09'' ''Serious''])]) isoDate codeUnitCompare
           \<lparr> adasFetch = Fulfilled \<lparr> ok = True, bodyText = Fulfilled ''adas'' \<rparr>,
             adsFetch = Fulfilled \<lparr> ok = True, bodyText = Fulfilled ''ads'' \<rparr>,
             adsSettlesFirst = True \<rparr> initialState)
     = \<lparr> monthlyData = [\<lparr> date = ''May 2021'', axisDate = ''05-2021'', count = 2, sortKey = ''2021-05'' \<rparr>],
         adasInjuries = [\<lparr> name = ''Minor'', value' = Num 1 \<rparr>],
         adsInjuries = [\<lparr> name = ''Serious'', value' = Num 1 \<rparr>],
         totalADAS = Num 1, totalADS = Num 1, isLoading = False, error = None \<rparr>
   \<and> loadData (parseTable [(''adas'', [incident ''2021-05-03'' ''Minor'']),
                             (''ads'', [incident ''2021-05-09'' ''Serious''])]) isoDate codeUnitCompare
        \<lparr> adasFetch = Fulfilled \<lparr> ok = True, bodyText = Fulfilled ''adas'' \<rparr>,
          adsFetch = Fulfilled \<lparr> ok = True, bodyText = Fulfilled ''ads'' \<rparr>,
          adsSettlesFirst = True \<rparr> initialState
     = \<lparr> monthlyData = [\<lparr> date = ''May 2021'', axisDate = ''05-2021'', count = 2, sortKey = ''2021-05'' \<rparr>],
         adasInjuries = [\<lparr> name = ''Minor'', value' = Num 1 \<rparr>],
         adsInjuries = [\<lparr> name = ''Serious'', value' = Num 1 \<rparr>],
         totalADAS = Num 1, totalADS = Num 1, isLoading = False, error = None \<rparr>"
proof -
  let ?papa = "parseTable [(''adas'', [incident ''2021-05-03'' ''Minor'']),
                           (''ads'', [incident ''2021-05-09'' ''Serious''])]"
  let ?net = "\<lparr> adasFetch = Fulfilled \<lparr> ok = True, bodyText = Fulfilled ''adas'' \<rparr>,
          adsFetch = Fulfilled \<lparr> ok = True, bodyText = Fulfilled ''ads'' \<rparr>,
          adsSettlesFirst = True \<rparr>"
  let ?net' = "\<lparr> adasFetch = Fulfilled \<lparr> ok = True, bodyText = Fulfilled ''adas'' \<rparr>,
          adsFetch = Fulfilled \<lparr> ok = True, bodyText = Fulfilled ''ads'' \<rparr>,
          adsSettlesFirst = False \<rparr>"
  have a: "deliveredText (adasFetch ?net) ''adas''" "deliveredText (adsFetch ?net) ''ads''"
    and b: "deliveredText (adasFetch ?net') ''adas''" "deliveredText (adsFetch ?net') ''ads''"
    by (simp_all add: deliveredText_def)
  have m: "monthlyDataArray isoDate codeUnitCompare [incident ''2021-05-03'' ''Minor''] [incident ''2021-05-09'' ''Serious'']
      = [\<lparr> date = ''May 2021'', axisDate = ''05-2021'', count = 2, sortKey = ''2021-05'' \<rparr>]"
    by (simp add: date_eval monthly_eval)
  have i: "injuriesData [incident ''2021-05-03'' ''Minor''] = [\<lparr> name = ''Minor'', value' = Num 1 \<rparr>]"
      "injuriesData [incident ''2021-05-09'' ''Serious''] = [\<lparr> name = ''Serious'', value' = Num 1 \<rparr>]"
    by (simp_all add: category_eval)
  have t: "total [\<lparr> name = ''Minor'', value' = Num 1 \<rparr>] = Num 1"
      "total [\<lparr> name = ''Serious'', value' = Num 1 \<rparr>] = Num 1"
    by (simp_all add: total_def jsPlus_def)
  have p: "?papa ''adas'' = [incident ''2021-05-03'' ''Minor'']"
      "?papa ''ads'' = [incident ''2021-05-09'' ''Serious'']"
    by (simp_all add: parseTable_def)
  have one: "loadData ?papa isoDate codeUnitCompare ?net initialState
     = \<lparr> monthlyData = [\<lparr> date = ''May 2021'', axisDate = ''05-2021'', count = 2, sortKey = ''2021-05'' \<rparr>],
         adasInjuries = [\<lparr> name = ''Minor'', value' = Num 1 \<rparr>],
         adsInjuries = [\<lparr> name = ''Serious'', value' = Num 1 \<rparr>],
         totalADAS = Num 1, totalADS = Num 1, isLoading = False, error = None \<rparr>"
    unfolding loadData_delivered [OF a] p m i t ..
  show ?thesis
    using rerun_gives_identical_results [OF a b, of ?papa isoDate codeUnitCompare initialState initialState] one
    by (simp add: deliveredText_def)
qed

lemma monthlyDataArray_no_valid:
  assumes "list_all (\<lambda>r. \<not> validDate nd r) A" "list_all (\<lambda>r. \<not> validDate nd r) B"
  shows "monthlyDataArray nd lc A B = []"
proof -
  have "foldl (monthlyStep nd) [] (A @ B) = foldl (monthlyStep nd) [] (filter (validDate nd) (A @ B))"
    by (simp only: monthlyStep_filter)
  moreover have "filter (validDate nd) (A @ B) = []"
    using assms by (auto simp add: list_all_iff filter_empty_conv)
  ultimately show ?thesis
    by (simp add: monthlyDataArray_def monthlyAccidents_def objectEntries_def arraySort_def)
qed

lemma injuriesData_no_counted:
  assumes "list_all (\<lambda>r. \<not> countedSeverity r) feed"
  shows "injuriesData feed = []"
proof -
  have "foldl categoryStep [] feed = foldl categoryStep [] (filter countedSeverity feed)"
    by (simp only: foldl_categoryStep_filter)
  moreover have "filter countedSeverity feed = []"
    using assms by (auto simp add: list_all_iff filter_empty_conv)
  ultimately show ?thesis
    by (simp add: injuriesData_def objectEntries_def)
qed

text \<open>
  Claim C10. With both texts delivered and no row with a valid date or a counted severity
  (no rows at all included), \<^verbatim>\<open>loadData\<close> ends without an error and not loading, with
  empty lists and totals 0, and the component shows the dashboard of them.
\<close>

theorem nothing_to_show_is_ready_not_error:
  assumes "deliveredText (adasFetch net) adasText" "deliveredText (adsFetch net) adsText"
    and "list_all (\<lambda>r. \<not> validDate newDate r \<and> \<not> countedSeverity r) (papaParse adasText)"
    and "list_all (\<lambda>r. \<not> validDate newDate r \<and> \<not> countedSeverity r) (papaParse adsText)"
  shows "loadData papaParse newDate localeCompare net s =
           \<lparr> monthlyData = [], adasInjuries = [], adsInjuries = [],
             totalADAS = Num 0, totalADS = Num 0, isLoading = False, error = None \<rparr>
       \<and> render (loadData papaParse newDate localeCompare net s) = DashboardView [] [] [] (Num 0) (Num 0)"
proof -
  have v: "list_all (\<lambda>r. \<not> validDate newDate r) (papaParse adasText)"
      "list_all (\<lambda>r. \<not> validDate newDate r) (papaParse adsText)"
    and c: "list_all (\<lambda>r. \<not> countedSeverity r) (papaParse adasText)"
      "list_all (\<lambda>r. \<not> countedSeverity r) (papaParse adsText)"
    using assms(3,4) by (simp_all add: list_all_iff)
  have "loadData papaParse newDate localeCompare net s =
           \<lparr> monthlyData = [], adasInjuries = [], adsInjuries = [],
             totalADAS = Num 0, totalADS = Num 0, isLoading = False, error = None \<rparr>"
    unfolding loadData_delivered [OF assms(1,2)]
    by (simp add: monthlyDataArray_no_valid [OF v] injuriesData_no_counted [OF c(1)] injuriesData_no_counted [OF c(2)] total_def)
  then show ?thesis by (simp add: render_def)
qed

theorem nothing_to_show_is_ready_not_error_witness:
  "deliveredText (Fulfilled \<lparr> ok = True, bodyText = Fulfilled ''adas'' \<rparr>) ''adas''
   \<and> deliveredText (Fulfilled \<lparr> ok = True, bodyText = Fulfilled ''ads'' \<rparr>) ''ads''
   \<and> parseTable [(''ads'', [incident '''' ''Unknown'', incident ''n/a'' ''''])] ''adas'' = []
   \<and> list_all (\<lambda>r. \<not> validDate isoDate r \<and> \<not> countedSeverity r)
        (parseTable [(''ads'', [incident '''' ''Unknown'', incident ''n/a'' ''''])] ''ads'')
   \<and> render (loadData (parseTable [(''ads'', [incident '''' ''Unknown'', incident ''n/a'' ''''])]) isoDate codeUnitCompare
        \<lparr> adasFetch = Fulfilled \<lparr> ok = True, bodyText = Fulfilled ''adas'' \<rparr>,
          adsFetch = Fulfilled \<lparr> ok = True, bodyText = Fulfilled ''ads'' \<rparr>,
          adsSettlesFirst = True \<rparr> initialState) = DashboardView [] [] [] (Num 0) (Num 0)"
proof -
  let ?papa = "parseTable [(''ads'', [incident '''' ''Unknown'', incident ''n/a'' ''''])]"
  let ?net = "\<lparr> adasFetch = Fulfilled \<lparr> ok = True, bodyText = Fulfilled ''adas'' \<rparr>,
          adsFetch = Fulfilled \<lparr> ok = True, bodyText = Fulfilled ''ads'' \<rparr>,
          adsSettlesFirst = True \<rparr>"
  have a: "deliveredText (adasFetch ?net) ''adas''" "deliveredText (adsFetch ?net) ''ads''"
    by (simp_all add: deliveredText_def)
  have e: "?papa ''adas'' = []"
    by (simp add: parseTable_def)
  have f: "list_all (\<lambda>r. \<not> validDate isoDate r \<and> \<not> countedSeverity r) (?papa ''adas'')"
    unfolding e by simp
  have g: "list_all (\<lambda>r. \<not> validDate isoDate r \<and> \<not> countedSeverity r) (?papa ''ads'')"
    by (simp add: parseTable_def validDate_def isoDate_def incident_def countedSeverity_def)
  show ?thesis
    using nothing_to_show_is_ready_not_error [OF a f g, of codeUnitCompare initialState] e g
    by (simp add: deliveredText_def render_def)
qed

end
